theory Spec2Isabelle
  imports Complex_Main
begin

section \<open>Data model\<close>

text \<open>
  The gesture piano of \<^verbatim>\<open>hand_detector.py\<close> and \<^verbatim>\<open>piano_module.py\<close>.
  Python integers are \<open>int\<close>, Python lists are HOL lists, and an \<^verbatim>\<open>IndexError\<close>
  is a value of the result type. The clock \<^verbatim>\<open>time.time()\<close> is an input: its readings are
  exact reals, so the floating-point rounding of the subtraction in the cooldown test is
  not part of the model. Drawing (\<^verbatim>\<open>cv2\<close>) and the bounding box have no effect on the state
  or on the sounds played and are left out.
\<close>

datatype error = IndexError

text \<open>An entry \<^verbatim>\<open>[id, px, py]\<close> of \<^verbatim>\<open>landmark_list\<close>.\<close>

type_synonym landmark = "int \<times> int \<times> int"

definition lm_x :: "landmark \<Rightarrow> int" where
  "lm_x l = fst (snd l)"

definition lm_y :: "landmark \<Rightarrow> int" where
  "lm_y l = snd (snd l)"

text \<open>
  One detected hand of \<^verbatim>\<open>self.results\<close>: the pixel positions of its landmarks in order
  (\<^verbatim>\<open>int(lm.x * w), int(lm.y * h)\<close>) and its handedness label, \<open>None\<close> when
  \<^verbatim>\<open>multi_handedness\<close> is missing.
\<close>

record hand =
  landmark :: "(int \<times> int) list"
  label :: "string option"

text \<open>
  What reaches the sound player and the key display. \<open>NoteOn n\<close> is the call
  \<^verbatim>\<open>play_note(n)\<close>, \<open>Chord ns\<close> the call \<^verbatim>\<open>play_chord(ns)\<close>; \<open>NoteOff n\<close> records the
  falling-edge branch, which in the source plays nothing and clears the \<^verbatim>\<open>active\<close> flag
  of the key of note \<open>n\<close>.
\<close>

datatype event = NoteOn string | NoteOff string | Chord "string list"

text \<open>A key of \<^verbatim>\<open>piano_keys\<close>: its \<^verbatim>\<open>'note'\<close> and \<^verbatim>\<open>'active'\<close> entries. Its geometry,
  colours and label never change.\<close>

record key =
  key_note :: string
  key_active :: bool

record piano_module =
  previous_fingers_right :: "int list"
  previous_fingers_left :: "int list"
  last_chord_time :: real
  last_fist_right :: bool
  last_fist_left :: bool
  piano_keys_right :: "key list"
  piano_keys_left :: "key list"

datatype side = Right | Left

section \<open>hand_detector.py\<close>

definition finger_tips :: "nat list" where
  "finger_tips = [4, 8, 12, 16, 20]"

definition finger_bases :: "nat list" where
  "finger_bases = [2, 5, 9, 13, 17]"

text \<open>Indexing a list with a non-negative index, as Python does it.\<close>

definition nth_py :: "'a list \<Rightarrow> nat \<Rightarrow> error + 'a" where
  "nth_py xs i = (if i < length xs then Inr (xs ! i) else Inl IndexError)"

text \<open>\<^verbatim>\<open>find_positions\<close>, without the bounding box.\<close>

definition find_positions :: "hand list \<Rightarrow> nat \<Rightarrow> landmark list \<times> string option" where
  "find_positions results hand_no =
     (if results \<noteq> [] \<and> length results > hand_no
      then (map (\<lambda>(i, p). (int i, fst p, snd p)) (enumerate 0 (landmark (results ! hand_no))),
            label (results ! hand_no))
      else ([], None))"

text \<open>The thumb test of \<^verbatim>\<open>fingers_up\<close>: the first element appended to \<^verbatim>\<open>fingers\<close>.\<close>

definition thumb_up :: "landmark list \<Rightarrow> string option \<Rightarrow> error + int" where
  "thumb_up landmark_list hand_type =
     (case nth_py landmark_list (finger_tips ! 0) of
        Inl e \<Rightarrow> Inl e
      | Inr tip \<Rightarrow>
         (case nth_py landmark_list (finger_bases ! 0) of
            Inl e \<Rightarrow> Inl e
          | Inr base \<Rightarrow>
             (if hand_type = Some ''Right''
              then Inr (if lm_x tip < lm_x base then 1 else 0)
              else Inr (if lm_x tip > lm_x base then 1 else 0))))"

text \<open>The loop \<^verbatim>\<open>for id in range(1, 5)\<close> of \<^verbatim>\<open>fingers_up\<close>.\<close>

fun fingers_loop :: "landmark list \<Rightarrow> nat list \<Rightarrow> int list \<Rightarrow> error + int list" where
  "fingers_loop landmark_list [] fingers = Inr fingers"
| "fingers_loop landmark_list (i # ids) fingers =
     (case nth_py landmark_list (finger_tips ! i) of
        Inl e \<Rightarrow> Inl e
      | Inr tip \<Rightarrow>
         (case nth_py landmark_list (finger_tips ! i - 2) of
            Inl e \<Rightarrow> Inl e
          | Inr mid \<Rightarrow>
             fingers_loop landmark_list ids
               (fingers @ [if lm_y tip < lm_y mid then 1 else 0])))"

definition fingers_up :: "landmark list \<Rightarrow> string option \<Rightarrow> error + int list" where
  "fingers_up landmark_list hand_type =
     (if landmark_list = [] then Inr [0, 0, 0, 0, 0]
      else (case thumb_up landmark_list hand_type of
              Inl e \<Rightarrow> Inl e
            | Inr t \<Rightarrow> fingers_loop landmark_list [1, 2, 3, 4] [t]))"

definition is_fist :: "int list \<Rightarrow> bool" where
  "is_fist fingers = (sum_list fingers = 0)"

section \<open>sound_player.py\<close>

text \<open>The frequency table \<^verbatim>\<open>note_freqs\<close>, in Hz.\<close>

definition note_freqs :: "(string \<times> real) list" where
  "note_freqs =
     [(''do4'', 261.63), (''re4'', 293.66), (''mi4'', 329.63), (''fa4'', 349.23),
      (''sol4'', 392.00), (''la4'', 440.00), (''si4'', 493.88), (''do5'', 523.25),
      (''re5'', 587.33), (''mi5'', 659.26)]"

section \<open>piano_module.py\<close>

definition right_hand_notes :: "string list" where
  "right_hand_notes = [''la4'', ''si4'', ''do5'', ''re5'', ''mi5'']"

definition left_hand_notes :: "string list" where
  "left_hand_notes = [''do4'', ''re4'', ''mi4'', ''fa4'', ''sol4'']"

definition chord_cooldown :: real where
  "chord_cooldown = 1.0"

definition create_piano_visualization :: "bool \<Rightarrow> key list" where
  "create_piano_visualization is_right =
     map (\<lambda>n. \<lparr>key_note = n, key_active = False\<rparr>)
       (if is_right then right_hand_notes else left_hand_notes)"

text \<open>The state \<^verbatim>\<open>__init__\<close> leaves.\<close>

definition init :: piano_module where
  "init =
     \<lparr>previous_fingers_right = [0, 0, 0, 0, 0],
      previous_fingers_left = [0, 0, 0, 0, 0],
      last_chord_time = 0,
      last_fist_right = False,
      last_fist_left = False,
      piano_keys_right = create_piano_visualization True,
      piano_keys_left = create_piano_visualization False\<rparr>"

text \<open>
  \<^verbatim>\<open>process\<close> has one branch for \<^verbatim>\<open>"Right"\<close> and one for \<^verbatim>\<open>"Left"\<close>. They are the same
  text up to the fields they read and write and the list a finger index selects its note
  from, so the model writes the branch once, over the side, with the accessors below.
\<close>

fun previous_fingers :: "side \<Rightarrow> piano_module \<Rightarrow> int list" where
  "previous_fingers Right s = previous_fingers_right s"
| "previous_fingers Left s = previous_fingers_left s"

fun last_fist :: "side \<Rightarrow> piano_module \<Rightarrow> bool" where
  "last_fist Right s = last_fist_right s"
| "last_fist Left s = last_fist_left s"

fun piano_keys :: "side \<Rightarrow> piano_module \<Rightarrow> key list" where
  "piano_keys Right s = piano_keys_right s"
| "piano_keys Left s = piano_keys_left s"

text \<open>The chord of a side: \<^verbatim>\<open>play_chord(self.right_hand_notes)\<close>, \<^verbatim>\<open>play_chord(self.left_hand_notes)\<close>.\<close>

fun hand_notes :: "side \<Rightarrow> string list" where
  "hand_notes Right = right_hand_notes"
| "hand_notes Left = left_hand_notes"

text \<open>
  The list a finger index is looked up in: \<^verbatim>\<open>self.right_hand_notes\<close> for the right hand,
  \<^verbatim>\<open>list(self.left_hand_notes)[::-1]\<close> for the left.
\<close>

fun finger_notes :: "side \<Rightarrow> string list" where
  "finger_notes Right = right_hand_notes"
| "finger_notes Left = rev left_hand_notes"

definition note_for :: "side \<Rightarrow> nat \<Rightarrow> error + string" where
  "note_for sd idx = nth_py (finger_notes sd) idx"

text \<open>\<^verbatim>\<open>for key in keys: if key['note'] == note: key['active'] = b\<close>\<close>

definition set_active :: "string \<Rightarrow> bool \<Rightarrow> key list \<Rightarrow> key list" where
  "set_active n b keys = map (\<lambda>k. if key_note k = n then k\<lparr>key_active := b\<rparr> else k) keys"

text \<open>\<^verbatim>\<open>for key in keys: key['active'] = b\<close>\<close>

definition set_all_active :: "bool \<Rightarrow> key list \<Rightarrow> key list" where
  "set_all_active b keys = map (\<lambda>k. k\<lparr>key_active := b\<rparr>) keys"

text \<open>
  The loop \<^verbatim>\<open>for idx, finger_up in enumerate(fingers)\<close>, from index \<open>idx\<close> on, over the
  keys of the side and the events of the frame so far. \<^verbatim>\<open>and\<close> is short-circuit: the
  previous vector is read only when the first test holds.
\<close>

fun finger_events ::
  "side \<Rightarrow> int list \<Rightarrow> nat \<Rightarrow> int list \<Rightarrow> key list \<times> event list \<Rightarrow>
   error + (key list \<times> event list)" where
  "finger_events sd prev idx [] acc = Inr acc"
| "finger_events sd prev idx (finger_up # rest) (keys, evs) =
     (if finger_up = 1 then
        (case nth_py prev idx of
           Inl e \<Rightarrow> Inl e
         | Inr p \<Rightarrow>
            (if p = 0 then
               (case note_for sd idx of
                  Inl e \<Rightarrow> Inl e
                | Inr n \<Rightarrow>
                   finger_events sd prev (Suc idx) rest
                     (set_active n True keys, evs @ [NoteOn n]))
             else finger_events sd prev (Suc idx) rest (keys, evs)))
      else if finger_up = 0 then
        (case nth_py prev idx of
           Inl e \<Rightarrow> Inl e
         | Inr p \<Rightarrow>
            (if p = 1 then
               (case note_for sd idx of
                  Inl e \<Rightarrow> Inl e
                | Inr n \<Rightarrow>
                   finger_events sd prev (Suc idx) rest
                     (set_active n False keys, evs @ [NoteOff n]))
             else finger_events sd prev (Suc idx) rest (keys, evs)))
      else finger_events sd prev (Suc idx) rest (keys, evs))"

text \<open>Writing the state of one side back: the keys, then \<^verbatim>\<open>fingers.copy()\<close> and the fist flag.\<close>

fun update_side :: "side \<Rightarrow> int list \<Rightarrow> bool \<Rightarrow> key list \<Rightarrow> piano_module \<Rightarrow> piano_module" where
  "update_side Right fingers fist keys s =
     s\<lparr>previous_fingers_right := fingers, last_fist_right := fist, piano_keys_right := keys\<rparr>"
| "update_side Left fingers fist keys s =
     s\<lparr>previous_fingers_left := fingers, last_fist_left := fist, piano_keys_left := keys\<rparr>"

text \<open>
  One branch of \<^verbatim>\<open>process\<close>: the finger loop, the chord on the closing fist, the release
  on the opening fist, the state update. \<open>current_time\<close> is the reading of \<^verbatim>\<open>time.time()\<close>
  taken in the branch, and \<open>chord_due\<close> the test
  \<^verbatim>\<open>is_fist and not self.last_fist_right and current_time - self.last_chord_time > self.chord_cooldown\<close>
  (\<^verbatim>\<open>last_fist_left\<close> in the other branch).
\<close>

definition chord_due :: "side \<Rightarrow> piano_module \<Rightarrow> bool \<Rightarrow> real \<Rightarrow> bool" where
  "chord_due sd s fist current_time =
     (fist \<and> \<not> last_fist sd s \<and> current_time - last_chord_time s > chord_cooldown)"

definition process_side ::
  "side \<Rightarrow> piano_module \<Rightarrow> int list \<Rightarrow> bool \<Rightarrow> real \<Rightarrow> error + (piano_module \<times> event list)" where
  "process_side sd s fingers fist current_time =
     (case finger_events sd (previous_fingers sd s) 0 fingers (piano_keys sd s, []) of
        Inl e \<Rightarrow> Inl e
      | Inr (keys1, evs1) \<Rightarrow>
         (let chord = chord_due sd s fist current_time;
              evs2 = (if chord then evs1 @ [Chord (hand_notes sd)] else evs1);
              s1 = (if chord then s\<lparr>last_chord_time := current_time\<rparr> else s);
              keys2 = (if chord then set_all_active True keys1 else keys1);
              keys3 = (if \<not> fist \<and> last_fist sd s then set_all_active False keys2 else keys2)
          in Inr (update_side sd fingers fist keys3 s1, evs2)))"

text \<open>Python's truth value of \<^verbatim>\<open>hand_type\<close>: \<^verbatim>\<open>None\<close> and the empty string are false.\<close>

definition truthy :: "string option \<Rightarrow> bool" where
  "truthy hand_type = (case hand_type of None \<Rightarrow> False | Some l \<Rightarrow> l \<noteq> [])"

text \<open>
  The body of \<^verbatim>\<open>for hand_idx in range(2)\<close>. \<open>clock hand_idx\<close> is what \<^verbatim>\<open>time.time()\<close>
  returns while hand \<open>hand_idx\<close> is processed.
\<close>

definition process_hand ::
  "piano_module \<Rightarrow> hand list \<Rightarrow> (nat \<Rightarrow> real) \<Rightarrow> nat \<Rightarrow> error + (piano_module \<times> event list)" where
  "process_hand s results clock hand_idx =
     (case find_positions results hand_idx of
        (landmark_list, hand_type) \<Rightarrow>
          (if landmark_list \<noteq> [] \<and> truthy hand_type then
             (case fingers_up landmark_list hand_type of
                Inl e \<Rightarrow> Inl e
              | Inr fingers \<Rightarrow>
                 (if hand_type = Some ''Right'' then
                    process_side Right s fingers (is_fist fingers) (clock hand_idx)
                  else if hand_type = Some ''Left'' then
                    process_side Left s fingers (is_fist fingers) (clock hand_idx)
                  else Inr (s, [])))
           else Inr (s, [])))"

text \<open>\<^verbatim>\<open>process\<close>: hand 0, then hand 1; the events of the frame in the order they happen.\<close>

definition process ::
  "piano_module \<Rightarrow> hand list \<Rightarrow> (nat \<Rightarrow> real) \<Rightarrow> error + (piano_module \<times> event list)" where
  "process s results clock =
     (case process_hand s results clock 0 of
        Inl e \<Rightarrow> Inl e
      | Inr (s1, evs0) \<Rightarrow>
         (case process_hand s1 results clock 1 of
            Inl e \<Rightarrow> Inl e
          | Inr (s2, evs1) \<Rightarrow> Inr (s2, evs0 @ evs1)))"

text \<open>
  The loop of \<^verbatim>\<open>main\<close> over the frames captured: each frame is what the detector found in
  it and the clock while it was processed. The result keeps the events frame by frame.
\<close>

fun main_loop ::
  "piano_module \<Rightarrow> (hand list \<times> (nat \<Rightarrow> real)) list \<Rightarrow>
   error + (piano_module \<times> event list list)" where
  "main_loop s [] = Inr (s, [])"
| "main_loop s ((results, clock) # frames) =
     (case process s results clock of
        Inl e \<Rightarrow> Inl e
      | Inr (s1, evs) \<Rightarrow>
         (case main_loop s1 frames of
            Inl e \<Rightarrow> Inl e
          | Inr (s2, evss) \<Rightarrow> Inr (s2, evs # evss)))"

section \<open>Notions for the statements\<close>

text \<open>
  What the finger loop appends to the events of the frame when no index is out of range,
  as a function of the previous and the current vector.
\<close>

fun edge_events :: "side \<Rightarrow> int list \<Rightarrow> nat \<Rightarrow> int list \<Rightarrow> event list" where
  "edge_events sd prev idx [] = []"
| "edge_events sd prev idx (finger_up # rest) =
     (if finger_up = 1 \<and> prev ! idx = 0 then [NoteOn (finger_notes sd ! idx)]
      else if finger_up = 0 \<and> prev ! idx = 1 then [NoteOff (finger_notes sd ! idx)]
      else [])
     @ edge_events sd prev (Suc idx) rest"

text \<open>The two stored vectors have one entry per finger.\<close>

definition wf_state :: "piano_module \<Rightarrow> bool" where
  "wf_state s = (length (previous_fingers_right s) = 5 \<and> length (previous_fingers_left s) = 5)"

text \<open>The label the detector gives a side.\<close>

fun side_label :: "side \<Rightarrow> string" where
  "side_label Right = ''Right''"
| "side_label Left = ''Left''"

text \<open>
  The observation at index \<open>i\<close> of a frame is processed for side \<open>sd\<close> with the finger
  vector \<open>f\<close>: it has landmarks, it carries the label of \<open>sd\<close>, and \<^verbatim>\<open>fingers_up\<close> returns \<open>f\<close>.
\<close>

definition observed :: "side \<Rightarrow> hand list \<Rightarrow> nat \<Rightarrow> int list \<Rightarrow> bool" where
  "observed sd results i f =
     (fst (find_positions results i) \<noteq> []
      \<and> snd (find_positions results i) = Some (side_label sd)
      \<and> fingers_up (fst (find_positions results i)) (Some (side_label sd)) = Inr f)"

text \<open>The hands a frame can look at have the 21 landmarks the detector reports.\<close>

definition wf_results :: "hand list \<Rightarrow> bool" where
  "wf_results results = list_all (\<lambda>h. length (landmark h) = 21) (take 2 results)"

text \<open>The chord events and the note events of a list of events, in order.\<close>

fun is_chord :: "event \<Rightarrow> bool" where
  "is_chord (Chord ns) = True"
| "is_chord (NoteOn n) = False"
| "is_chord (NoteOff n) = False"

definition chords :: "event list \<Rightarrow> event list" where
  "chords evs = filter is_chord evs"

definition note_events :: "event list \<Rightarrow> event list" where
  "note_events evs = filter (\<lambda>e. \<not> is_chord e) evs"

text \<open>The events of a result, without the state.\<close>

definition events_of :: "error + (piano_module \<times> 'a) \<Rightarrow> error + 'a" where
  "events_of r = (case r of Inl e \<Rightarrow> Inl e | Inr (s, evs) \<Rightarrow> Inr evs)"

text \<open>Each note of a list has a frequency in the table, and the frequencies increase strictly.\<close>

definition ascending :: "string list \<Rightarrow> bool" where
  "ascending ns =
     (list_all (\<lambda>n. map_of note_freqs n \<noteq> None) ns
      \<and> sorted_wrt (<) (map (\<lambda>n. the (map_of note_freqs n)) ns))"

text \<open>An event of a side: a note of the side goes on or off, or the chord of the side is played.\<close>

fun event_of_side :: "side \<Rightarrow> event \<Rightarrow> bool" where
  "event_of_side sd (NoteOn n) = (n \<in> set (hand_notes sd))"
| "event_of_side sd (NoteOff n) = (n \<in> set (hand_notes sd))"
| "event_of_side sd (Chord ns) = (ns = hand_notes sd)"

text \<open>
  The observation at index \<open>i\<close> of a frame has landmarks and the label of side \<open>sd\<close>; and
  exactly one of the two observations a frame processes is of side \<open>sd\<close>, with the finger
  vector \<open>f\<close>.
\<close>

definition of_side :: "side \<Rightarrow> hand list \<Rightarrow> nat \<Rightarrow> bool" where
  "of_side sd results i =
     (fst (find_positions results i) \<noteq> [] \<and> snd (find_positions results i) = Some (side_label sd))"


text \<open>The observation at index \<open>i\<close> of a frame is of neither side: it is not processed.\<close>

definition no_side :: "hand list \<Rightarrow> nat \<Rightarrow> bool" where
  "no_side results i = (\<not> of_side Right results i \<and> \<not> of_side Left results i)"


text \<open>
  The two observations a frame processes are of the same side, \<^verbatim>\<open>"Right"\<close> or \<^verbatim>\<open>"Left"\<close>, and
  \<^verbatim>\<open>fingers_up\<close> does not return the same for both.
\<close>

definition same_side_clash :: "hand list \<Rightarrow> bool" where
  "same_side_clash results =
     (case (find_positions results 0, find_positions results 1) of
        ((l0, t0), (l1, t1)) \<Rightarrow>
          l0 \<noteq> [] \<and> l1 \<noteq> [] \<and> t0 = t1 \<and> (t0 = Some ''Right'' \<or> t0 = Some ''Left'')
          \<and> fingers_up l0 t0 \<noteq> fingers_up l1 t1)"

subsection \<open>Concrete frames\<close>

text \<open>
  Four hands of 21 landmarks. Under the label \<^verbatim>\<open>"Right"\<close> the first has all five fingers
  extended and the second none; the other two are the same for the label \<^verbatim>\<open>"Left"\<close>.
\<close>

definition hand_open_right :: hand where
  "hand_open_right = \<lparr>landmark = map (\<lambda>i. (100 - i, 100 - i)) [0..20], label = Some ''Right''\<rparr>"

definition hand_fist_right :: hand where
  "hand_fist_right = \<lparr>landmark = map (\<lambda>i. (i, i)) [0..20], label = Some ''Right''\<rparr>"

definition hand_open_left :: hand where
  "hand_open_left = \<lparr>landmark = map (\<lambda>i. (i, 100 - i)) [0..20], label = Some ''Left''\<rparr>"

definition hand_fist_left :: hand where
  "hand_fist_left = \<lparr>landmark = map (\<lambda>i. (100 - i, i)) [0..20], label = Some ''Left''\<rparr>"


definition hand_other :: hand where
  "hand_other = \<lparr>landmark = map (\<lambda>i. (100 - i, 100 - i)) [0..20], label = Some ''Other''\<rparr>"

text \<open>A clock that reads \<open>t\<close> for both hands of a frame.\<close>

definition clock_at :: "real \<Rightarrow> nat \<Rightarrow> real" where
  "clock_at t hand_idx = t"

subsection \<open>Concrete states\<close>

text \<open>
  The states the concrete runs below go through, as updates of the initial state. After the
  right fist at time 5: the chord was played and all keys of the right hand are lit.
\<close>

definition s_fist :: piano_module where
  "s_fist = init\<lparr>last_chord_time := 5, last_fist_right := True,
                 piano_keys_right := set_all_active True (piano_keys_right init)\<rparr>"

text \<open>Then the open right hand at 5.5: the release of the fist switches the keys off.\<close>

definition s_open :: piano_module where
  "s_open = init\<lparr>previous_fingers_right := [1, 1, 1, 1, 1], last_chord_time := 5\<rparr>"

text \<open>After the open and the closed right hand in one frame at time 5, processed a second time.\<close>

definition s_second :: piano_module where
  "s_second = init\<lparr>last_chord_time := 5, last_fist_right := True\<rparr>"

text \<open>After the open right hand alone, from the initial state.\<close>

definition s_open_only :: piano_module where
  "s_open_only = init\<lparr>previous_fingers_right := [1, 1, 1, 1, 1],
                       piano_keys_right := set_all_active True (piano_keys_right init)\<rparr>"

text \<open>After the open right hand and the left fist in one frame at time 5.\<close>

definition s_two_hands :: piano_module where
  "s_two_hands = init\<lparr>previous_fingers_right := [1, 1, 1, 1, 1], last_chord_time := 5,
                       last_fist_left := True,
                       piano_keys_right := set_all_active True (piano_keys_right init),
                       piano_keys_left := set_all_active True (piano_keys_left init)\<rparr>"

text \<open>
  After the right fist at time 5: the left fist without its chord, the open left hand, and
  the left fist with its chord at 6.5.
\<close>

definition s_left_fist :: piano_module where
  "s_left_fist = s_fist\<lparr>last_fist_left := True\<rparr>"

definition s_left_open :: piano_module where
  "s_left_open = s_fist\<lparr>previous_fingers_left := [1, 1, 1, 1, 1]\<rparr>"

definition s_left_chord :: piano_module where
  "s_left_chord = s_fist\<lparr>last_chord_time := 6.5, last_fist_left := True,
                          piano_keys_left := set_all_active True (piano_keys_left init)\<rparr>"

text \<open>After the open right hand at time 7: the right fist with its chord at 7.5.\<close>

definition s_fist_late :: piano_module where
  "s_fist_late = init\<lparr>last_chord_time := 7.5, last_fist_right := True,
                        piano_keys_right := set_all_active True (piano_keys_right init)\<rparr>"





section \<open>Lemmas\<close>

subsection \<open>Landmarks and finger vectors\<close>

lemma fingers_loop_shape:
  "fingers_loop lms ids acc = Inr f \<Longrightarrow>
     length f = length acc + length ids \<and> set f \<subseteq> set acc \<union> {0, 1}"
proof (induction ids arbitrary: acc)
  case Nil
  then show ?case by auto
next
  case (Cons i ids)
  then show ?case
    by (auto split: sum.splits if_splits dest!: Cons.IH)
qed

lemma fingers_up_shape:
  assumes "fingers_up lms ht = Inr f"
  shows "length f = 5 \<and> set f \<subseteq> {0, 1}"
proof (cases "lms = []")
  case True
  with assms show ?thesis by (auto simp: fingers_up_def)
next
  case False
  with assms obtain t where t: "thumb_up lms ht = Inr t"
    and l: "fingers_loop lms [1, 2, 3, 4] [t] = Inr f"
    by (auto simp: fingers_up_def split: sum.splits)
  from t have "t = 0 \<or> t = 1"
    by (auto simp: thumb_up_def split: sum.splits if_splits)
  with fingers_loop_shape[OF l] show ?thesis by auto
qed

lemma find_positions_length:
  "length (fst (find_positions results i)) =
     (if i < length results then length (landmark (results ! i)) else 0)"
  by (auto simp: find_positions_def)

lemma find_positions_label:
  "i < length results \<Longrightarrow> snd (find_positions results i) = label (results ! i)"
  by (auto simp: find_positions_def)

lemma find_positions_none:
  "\<not> i < length results \<Longrightarrow> find_positions results i = ([], None)"
  by (auto simp: find_positions_def)

lemma fingers_up_total:
  assumes "length lms = 21"
  shows "\<exists>f. fingers_up lms ht = Inr f \<and> length f = 5"
proof -
  have "\<exists>f. fingers_up lms ht = Inr f"
    using assms
    by (auto simp: fingers_up_def thumb_up_def nth_py_def finger_tips_def finger_bases_def)
  then show ?thesis using fingers_up_shape by blast
qed

lemma find_positions_take2:
  assumes "i < 2" "fst (find_positions results i) \<noteq> []"
  shows "results ! i \<in> set (take 2 results) \<and> landmark (results ! i) \<noteq> []
       \<and> snd (find_positions results i) = label (results ! i)"
proof -
  have l: "i < length results" using assms(2) find_positions_none[of i results] by fastforce
  have "take 2 results ! i \<in> set (take 2 results)"
    using assms(1) l by (intro nth_mem) simp
  then have "results ! i \<in> set (take 2 results)" using assms(1) by simp
  moreover have "landmark (results ! i) \<noteq> []"
    using assms(2) l find_positions_length[of results i] by auto
  ultimately show ?thesis using find_positions_label[OF l] by simp
qed

lemma find_positions_take:
  "i < 2 \<Longrightarrow> find_positions (take 2 results) i = find_positions results i"
  by (auto simp: find_positions_def)

subsection \<open>The finger loop and its events\<close>

lemma length_finger_notes: "length (finger_notes sd) = 5"
  by (cases sd) (simp_all add: right_hand_notes_def left_hand_notes_def)

lemma finger_events_Inr:
  "finger_events sd prev idx fs (keys, evs) = Inr (keys', evs') \<Longrightarrow>
     evs' = evs @ edge_events sd prev idx fs"
proof (induction fs arbitrary: idx keys evs)
  case Nil
  then show ?case by simp
next
  case (Cons f fs)
  then show ?case
    by (auto simp: note_for_def nth_py_def split: if_splits sum.splits dest!: Cons.IH)
qed

lemma finger_events_total:
  "idx + length fs \<le> length prev \<Longrightarrow> idx + length fs \<le> 5 \<Longrightarrow>
     \<exists>keys'. finger_events sd prev idx fs (keys, evs) = Inr (keys', evs @ edge_events sd prev idx fs)"
proof (induction fs arbitrary: idx keys evs)
  case Nil
  then show ?case by simp
next
  case (Cons f fs)
  have a: "idx < length prev" "idx < 5" using Cons.prems by auto
  have b: "Suc idx + length fs \<le> length prev" "Suc idx + length fs \<le> 5" using Cons.prems by auto
  have ih: "\<exists>keys'. finger_events sd prev (Suc idx) fs (k, evs @ e) =
               Inr (keys', evs @ e @ edge_events sd prev (Suc idx) fs)" for k e
    using Cons.IH[OF b, of k "evs @ e"] by simp
  show ?case
    using a ih[of keys "[]"] ih[of "set_active (finger_notes sd ! idx) True keys" "[NoteOn (finger_notes sd ! idx)]"]
      ih[of "set_active (finger_notes sd ! idx) False keys" "[NoteOff (finger_notes sd ! idx)]"]
    by (auto simp: note_for_def nth_py_def length_finger_notes)
qed


lemma set_finger_notes: "set (finger_notes sd) = set (hand_notes sd)"
  by (cases sd) simp_all

lemma edge_events_notes:
  "idx + length fs \<le> 5 \<Longrightarrow> e \<in> set (edge_events sd prev idx fs) \<Longrightarrow>
     \<exists>n \<in> set (hand_notes sd). e = NoteOn n \<or> e = NoteOff n"
proof (induction fs arbitrary: idx)
  case Nil
  then show ?case by simp
next
  case (Cons f fs)
  have "idx < length (finger_notes sd)" using Cons.prems(1) by (simp add: length_finger_notes)
  then have "finger_notes sd ! idx \<in> set (hand_notes sd)"
    using set_finger_notes nth_mem by blast
  moreover have "Suc idx + length fs \<le> 5" using Cons.prems(1) by simp
  ultimately show ?case
    using Cons.prems(2) Cons.IH[of "Suc idx"] by (auto split: if_splits)
qed



lemma chords_append: "chords (xs @ ys) = chords xs @ chords ys"
  by (simp add: chords_def)

lemma chords_edge_events: "chords (edge_events sd prev idx fs) = []"
  by (induction fs arbitrary: idx) (simp_all add: chords_def)


lemma notes_disjoint:
  "sd \<noteq> sd' \<Longrightarrow> set (hand_notes sd) \<inter> set (hand_notes sd') = {} \<and> hand_notes sd \<noteq> hand_notes sd'"
  by (cases sd; cases sd') (auto simp: right_hand_notes_def left_hand_notes_def)

lemma edge_events_other_side:
  assumes "sd \<noteq> sd'" "length f = 5"
  shows "filter (event_of_side sd) (edge_events sd' prev 0 f) = []"
proof -
  have "\<not> event_of_side sd e" if "e \<in> set (edge_events sd' prev 0 f)" for e
  proof -
    have "0 + length f \<le> 5" using assms(2) by simp
    from edge_events_notes[OF this that]
    obtain n where n: "n \<in> set (hand_notes sd')" "e = NoteOn n \<or> e = NoteOff n"
      by auto
    then have "n \<notin> set (hand_notes sd)" using notes_disjoint[OF assms(1)] by auto
    with n(2) show ?thesis by auto
  qed
  then show ?thesis by (simp add: filter_empty_conv)
qed

lemma finger_events_same_aux:
  "finger_events sd prev idx (drop idx prev) acc = Inr acc"
proof (induction "length prev - idx" arbitrary: idx acc)
  case 0
  then show ?case by simp
next
  case (Suc k)
  then have lt: "idx < length prev" by simp
  have k: "k = length prev - Suc idx" using Suc.hyps(2) by simp
  have d: "drop idx prev = prev ! idx # drop (Suc idx) prev"
    using lt by (simp add: Cons_nth_drop_Suc)
  obtain keys evs where acc: "acc = (keys, evs)" by (cases acc)
  show ?case
    unfolding d acc using Suc.hyps(1)[OF k] lt by (simp add: nth_py_def)
qed

lemma finger_events_same: "finger_events sd f 0 f acc = Inr acc"
  using finger_events_same_aux[of sd f 0 acc] by simp

lemma note_events_append: "note_events (xs @ ys) = note_events xs @ note_events ys"
  by (simp add: note_events_def)

lemma note_events_edge_events: "note_events (edge_events sd prev idx fs) = edge_events sd prev idx fs"
  by (induction fs arbitrary: idx) (simp_all add: note_events_def)

lemma edge_events_all_on:
  "edge_events Right [0, 0, 0, 0, 0] 0 [1, 1, 1, 1, 1] = map NoteOn right_hand_notes"
  by (simp add: right_hand_notes_def)

lemma edge_events_all_off:
  "edge_events Right [1, 1, 1, 1, 1] 0 [0, 0, 0, 0, 0] = map NoteOff right_hand_notes"
  by (simp add: right_hand_notes_def)

subsection \<open>One side\<close>

lemma process_side_Inr:
  assumes "process_side sd s f fist t = Inr (s', evs)"
  shows "evs = edge_events sd (previous_fingers sd s) 0 f
                 @ (if chord_due sd s fist t then [Chord (hand_notes sd)] else [])"
    and "previous_fingers sd s' = f"
    and "last_fist sd s' = fist"
    and "last_chord_time s' = (if chord_due sd s fist t then t else last_chord_time s)"
    and "sd' \<noteq> sd \<Longrightarrow> previous_fingers sd' s' = previous_fingers sd' s"
    and "sd' \<noteq> sd \<Longrightarrow> last_fist sd' s' = last_fist sd' s"
    and "sd' \<noteq> sd \<Longrightarrow> piano_keys sd' s' = piano_keys sd' s"
proof -
  from assms obtain keys1 evs1 where
    fe: "finger_events sd (previous_fingers sd s) 0 f (piano_keys sd s, []) = Inr (keys1, evs1)"
    by (auto simp: process_side_def split: sum.splits)
  have e1: "evs1 = edge_events sd (previous_fingers sd s) 0 f"
    using finger_events_Inr[OF fe] by simp
  from assms fe e1 show "evs = edge_events sd (previous_fingers sd s) 0 f
                 @ (if chord_due sd s fist t then [Chord (hand_notes sd)] else [])"
    by (auto simp: process_side_def Let_def)
  from assms fe show "previous_fingers sd s' = f"
    by (cases sd) (auto simp: process_side_def Let_def split: if_splits)
  from assms fe show "last_fist sd s' = fist"
    by (cases sd) (auto simp: process_side_def Let_def split: if_splits)
  from assms fe show "last_chord_time s' = (if chord_due sd s fist t then t else last_chord_time s)"
    by (cases sd) (auto simp: process_side_def Let_def split: if_splits)
  from assms fe show "sd' \<noteq> sd \<Longrightarrow> previous_fingers sd' s' = previous_fingers sd' s"
    by (cases sd; cases sd') (auto simp: process_side_def Let_def split: if_splits)
  from assms fe show "sd' \<noteq> sd \<Longrightarrow> last_fist sd' s' = last_fist sd' s"
    by (cases sd; cases sd') (auto simp: process_side_def Let_def split: if_splits)
  from assms fe show "sd' \<noteq> sd \<Longrightarrow> piano_keys sd' s' = piano_keys sd' s"
    by (cases sd; cases sd') (auto simp: process_side_def Let_def split: if_splits)
qed

lemma process_side_total:
  assumes "length (previous_fingers sd s) = 5" "length f = 5"
  shows "\<exists>s'. process_side sd s f fist t =
           Inr (s', edge_events sd (previous_fingers sd s) 0 f
                      @ (if chord_due sd s fist t then [Chord (hand_notes sd)] else []))"
proof -
  obtain keys' where
    "finger_events sd (previous_fingers sd s) 0 f (piano_keys sd s, []) =
       Inr (keys', [] @ edge_events sd (previous_fingers sd s) 0 f)"
    using finger_events_total[of 0 f "previous_fingers sd s" sd "piano_keys sd s" "[]"] assms
    by auto
  then show ?thesis
    by (auto simp: process_side_def Let_def)
qed

lemma wf_previous_fingers: "wf_state s \<Longrightarrow> length (previous_fingers sd s) = 5"
  by (cases sd) (simp_all add: wf_state_def)

lemma wf_process_side:
  assumes "process_side sd s f fist t = Inr (s', evs)" "wf_state s" "length f = 5"
  shows "wf_state s'"
proof -
  have "length (previous_fingers sd' s') = 5" for sd'
  proof (cases "sd' = sd")
    case True
    then show ?thesis using process_side_Inr(2)[OF assms(1)] assms(3) by simp
  next
    case False
    then show ?thesis
      using process_side_Inr(5)[OF assms(1) False] wf_previous_fingers[OF assms(2)] by simp
  qed
  from this[of Right] this[of Left] show ?thesis by (simp add: wf_state_def)
qed

lemma process_side_chords:
  assumes "process_side sd s f fist t = Inr (s', evs)"
  shows "chords evs = (if chord_due sd s fist t then [Chord (hand_notes sd)] else [])"
  using process_side_Inr(1)[OF assms]
  by (simp add: chords_append chords_edge_events) (simp add: chords_def)

lemma side_label_inj: "side_label sd = side_label sd' \<longleftrightarrow> sd = sd'"
  by (cases sd; cases sd') simp_all

lemma update_side_same:
  "update_side sd (previous_fingers sd s) (last_fist sd s) (piano_keys sd s) s = s"
  by (cases sd) simp_all

lemma process_side_repeat:
  assumes "previous_fingers sd s = f" "last_fist sd s = fist"
  shows "process_side sd s f fist t = Inr (s, [])"
proof -
  have "\<not> chord_due sd s fist t" using assms(2) by (auto simp: chord_due_def)
  then show ?thesis
    using assms update_side_same[of sd s]
    by (auto simp: process_side_def finger_events_same)
qed

lemma process_side_note_events:
  assumes "process_side sd s f fist t = Inr (s', evs)"
  shows "note_events evs = edge_events sd (previous_fingers sd s) 0 f"
  using process_side_Inr(1)[OF assms]
  by (simp add: note_events_append note_events_edge_events) (simp add: note_events_def)

subsection \<open>One observation\<close>

text \<open>Inversion of the loop body: either nothing happened or one side was processed.\<close>

lemma process_hand_Inr:
  assumes "process_hand s results clock i = Inr (s', evs)"
  shows "(s' = s \<and> evs = [] \<and>
            (\<forall>sd. fst (find_positions results i) = [] \<or>
                  snd (find_positions results i) \<noteq> Some (side_label sd)))
         \<or> (\<exists>sd f. fst (find_positions results i) \<noteq> []
               \<and> snd (find_positions results i) = Some (side_label sd)
               \<and> fingers_up (fst (find_positions results i)) (Some (side_label sd)) = Inr f
               \<and> process_side sd s f (is_fist f) (clock i) = Inr (s', evs))"
proof (cases "find_positions results i")
  case (Pair lms ht)
  show ?thesis
  proof (cases "lms \<noteq> [] \<and> truthy ht")
    case False
    have "ht \<noteq> Some (side_label sd)" if "lms \<noteq> []" for sd
      using False that by (cases sd) (auto simp: truthy_def)
    with assms Pair False show ?thesis
      by (auto simp: process_hand_def)
  next
    case True
    with assms Pair obtain f where f: "fingers_up lms ht = Inr f"
      by (auto simp: process_hand_def split: sum.splits)
    consider "ht = Some ''Right''" | "ht = Some ''Left''" | "ht \<noteq> Some ''Right''" "ht \<noteq> Some ''Left''"
      by blast
    then show ?thesis
    proof cases
      case 1
      with assms Pair True f have "process_side Right s f (is_fist f) (clock i) = Inr (s', evs)"
        by (simp add: process_hand_def)
      with 1 Pair True f show ?thesis
        by (intro disjI2 exI[of _ Right] exI[of _ f]) simp
    next
      case 2
      with assms Pair True f have "process_side Left s f (is_fist f) (clock i) = Inr (s', evs)"
        by (simp add: process_hand_def)
      with 2 Pair True f show ?thesis
        by (intro disjI2 exI[of _ Left] exI[of _ f]) simp
    next
      case 3
      then have "ht \<noteq> Some (side_label sd)" for sd by (cases sd) auto
      with assms Pair True f 3 show ?thesis
        by (auto simp: process_hand_def)
    qed
  qed
qed

lemma process_hand_total:
  assumes "wf_state s" "i < length results \<longrightarrow> length (landmark (results ! i)) = 21"
  shows "\<exists>s' evs. process_hand s results clock i = Inr (s', evs) \<and> wf_state s'"
proof (cases "find_positions results i")
  case (Pair lms ht)
  show ?thesis
  proof (cases "lms \<noteq> [] \<and> truthy ht")
    case False
    with Pair assms(1) show ?thesis by (auto simp: process_hand_def)
  next
    case True
    then have "i < length results" using Pair find_positions_none[of i results] by fastforce
    then have "length lms = 21"
      using assms(2) find_positions_length[of results i] Pair by simp
    then obtain f where f: "fingers_up lms ht = Inr f" "length f = 5"
      using fingers_up_total by blast
    have side: "\<exists>s' evs. process_side sd s f (is_fist f) (clock i) = Inr (s', evs) \<and> wf_state s'" for sd
      using process_side_total[OF wf_previous_fingers[OF assms(1)] f(2)] wf_process_side[OF _ assms(1) f(2)]
      by metis
    show ?thesis
      using Pair True f(1) side[of Right] side[of Left] assms(1)
      by (auto simp: process_hand_def)
  qed
qed

text \<open>The timer after one observation.\<close>

lemma process_hand_timer:
  assumes "process_hand s results clock i = Inr (s', evs)"
  shows "(chords evs \<noteq> [] \<longrightarrow> last_chord_time s' = clock i \<and> clock i - last_chord_time s > 1)
       \<and> (chords evs = [] \<longrightarrow> last_chord_time s' = last_chord_time s)"
  using process_hand_Inr[OF assms]
proof (elim disjE exE conjE)
  assume "s' = s" "evs = []"
  then show ?thesis by (simp add: chords_def)
next
  fix sd f
  assume ps: "process_side sd s f (is_fist f) (clock i) = Inr (s', evs)"
  show ?thesis
    using process_side_Inr(4)[OF ps] process_side_chords[OF ps]
    by (auto simp: chord_due_def chord_cooldown_def)
qed

text \<open>Inside the window nothing fires.\<close>

lemma process_hand_window:
  assumes "process_hand s results clock i = Inr (s', evs)" "clock i - last_chord_time s \<le> 1"
  shows "chords evs = [] \<and> last_chord_time s' = last_chord_time s"
  using process_hand_timer[OF assms(1)] assms(2) by auto

lemma process_hand_observed:
  assumes "process_hand s results clock i = Inr (s', evs)" "observed sd results i f"
  shows "process_side sd s f (is_fist f) (clock i) = Inr (s', evs)"
  using process_hand_Inr[OF assms(1)] assms(2)
  by (auto simp: observed_def side_label_inj)

lemma observed_shape: "observed sd results i f \<Longrightarrow> length f = 5 \<and> set f \<subseteq> {0, 1}"
  using fingers_up_shape by (auto simp: observed_def)

lemma process_hand_other_side:
  assumes "process_hand s results clock i = Inr (s', evs)"
    and "fst (find_positions results i) = [] \<or> snd (find_positions results i) \<noteq> Some (side_label sd)"
  shows "previous_fingers sd s' = previous_fingers sd s \<and> last_fist sd s' = last_fist sd s
       \<and> piano_keys sd s' = piano_keys sd s \<and> filter (event_of_side sd) evs = []"
  using process_hand_Inr[OF assms(1)]
proof (elim disjE exE conjE)
  assume "s' = s" "evs = []"
  then show ?thesis by simp
next
  fix sd' f
  assume ne: "fst (find_positions results i) \<noteq> []"
    and l: "snd (find_positions results i) = Some (side_label sd')"
    and fu: "fingers_up (fst (find_positions results i)) (Some (side_label sd')) = Inr f"
    and ps: "process_side sd' s f (is_fist f) (clock i) = Inr (s', evs)"
  from assms(2) ne l have d: "sd \<noteq> sd'" by auto
  have len: "length f = 5" using fingers_up_shape[OF fu] by simp
  have "filter (event_of_side sd) evs = []"
    using process_side_Inr(1)[OF ps] edge_events_other_side[OF d len] notes_disjoint[OF d]
    by auto
  then show ?thesis
    using process_side_Inr(5,6,7)[OF ps d] by simp
qed

lemma process_hand_stable:
  assumes "observed sd results i f" "previous_fingers sd s = f" "last_fist sd s = is_fist f"
  shows "process_hand s results clock i = Inr (s, [])"
proof -
  obtain lms ht where fp: "find_positions results i = (lms, ht)" by (cases "find_positions results i")
  from assms(1) fp have o: "lms \<noteq> []" "ht = Some (side_label sd)" "fingers_up lms ht = Inr f"
    by (auto simp: observed_def)
  have t: "truthy ht" using o(2) by (cases sd) (simp_all add: truthy_def)
  show ?thesis
    using fp o t process_side_repeat[OF assms(2,3), of "clock i"]
    by (cases sd) (simp_all add: process_hand_def)
qed

lemma process_hand_cases:
  assumes "process_hand s results clock i = Inr (s', evs)"
  shows "(s' = s \<and> evs = [] \<and> (\<forall>sd f. \<not> observed sd results i f))
       \<or> (\<exists>sd f. observed sd results i f
             \<and> process_side sd s f (is_fist f) (clock i) = Inr (s', evs))"
  using process_hand_Inr[OF assms] by (auto simp: observed_def)

lemma process_hand_skip:
  assumes "process_hand s results clock i = Inr (s', evs)" "\<forall>sd f. \<not> observed sd results i f"
  shows "process_hand s2 results clock2 i = Inr (s2, [])"
proof -
  obtain lms ht where fp: "find_positions results i = (lms, ht)" by (cases "find_positions results i")
  show ?thesis
  proof (cases "lms \<noteq> [] \<and> truthy ht")
    case False
    with fp show ?thesis by (auto simp: process_hand_def)
  next
    case True
    with assms(1) fp obtain f where f: "fingers_up lms ht = Inr f"
      by (auto simp: process_hand_def split: sum.splits)
    have "ht \<noteq> Some (side_label sd)" for sd
      using assms(2) fp True f by (auto simp: observed_def)
    from this[of Right] this[of Left] show ?thesis
      using fp True f by (simp add: process_hand_def)
  qed
qed

lemma process_hand_take:
  "i < 2 \<Longrightarrow> process_hand s (take 2 results) clock i = process_hand s results clock i"
  by (simp add: process_hand_def find_positions_take)

lemma process_hand_observed_eq:
  assumes "observed sd results i f"
  shows "process_hand s results clock i = process_side sd s f (is_fist f) (clock i)"
proof -
  obtain lms ht where fp: "find_positions results i = (lms, ht)" by (cases "find_positions results i")
  from assms fp have o: "lms \<noteq> []" "ht = Some (side_label sd)" "fingers_up lms ht = Inr f"
    by (auto simp: observed_def)
  have t: "truthy ht" using o(2) by (cases sd) (simp_all add: truthy_def)
  show ?thesis
    using fp o t by (cases sd) (simp_all add: process_hand_def)
qed

lemma process_hand_absent:
  "\<not> i < length results \<Longrightarrow> process_hand s results clock i = Inr (s, [])"
  by (simp add: process_hand_def find_positions_none)



subsection \<open>One frame\<close>

lemma process_total:
  assumes "wf_state s" "wf_results results"
  shows "\<exists>s' evs. process s results clock = Inr (s', evs) \<and> wf_state s'"
proof -
  have len: "i < length results \<longrightarrow> length (landmark (results ! i)) = 21" if "i < 2" for i
  proof
    assume l: "i < length results"
    have "take 2 results ! i \<in> set (take 2 results)"
      using that l by (intro nth_mem) simp
    then have "results ! i \<in> set (take 2 results)" using that by simp
    then show "length (landmark (results ! i)) = 21"
      using assms(2) by (simp add: wf_results_def list_all_iff)
  qed
  obtain s1 evs0 where h0: "process_hand s results clock 0 = Inr (s1, evs0)" "wf_state s1"
    using process_hand_total[OF assms(1) len[of 0], where clock = clock] by simp blast
  obtain s2 evs1 where h1: "process_hand s1 results clock 1 = Inr (s2, evs1)" "wf_state s2"
    using process_hand_total[OF h0(2) len[of 1], where clock = clock] by simp blast
  show ?thesis using h0 h1 by (simp add: process_def)
qed

lemma process_Inr:
  assumes "process s results clock = Inr (s', evs)"
  obtains s1 evs0 evs1 where "process_hand s results clock 0 = Inr (s1, evs0)"
    "process_hand s1 results clock 1 = Inr (s', evs1)" "evs = evs0 @ evs1"
  using assms by (auto simp: process_def split: sum.splits)

lemma process_timer:
  assumes "process s results clock = Inr (s', evs)"
  shows "(last_chord_time s' \<noteq> last_chord_time s \<longleftrightarrow> chords evs \<noteq> [])
       \<and> (chords evs \<noteq> [] \<longrightarrow> last_chord_time s' = clock 0 \<or> last_chord_time s' = clock 1)"
proof -
  from assms obtain s1 evs0 evs1 where
    h0: "process_hand s results clock 0 = Inr (s1, evs0)" and
    h1: "process_hand s1 results clock 1 = Inr (s', evs1)" and e: "evs = evs0 @ evs1"
    by (rule process_Inr)
  show ?thesis
    using process_hand_timer[OF h0] process_hand_timer[OF h1]
    unfolding e chords_append
    by (cases "chords evs0 = []"; cases "chords evs1 = []") auto
qed

lemma process_window:
  assumes "process s results clock = Inr (s', evs)"
    "clock 0 - last_chord_time s \<le> 1" "clock 1 - last_chord_time s \<le> 1"
  shows "chords evs = [] \<and> last_chord_time s' = last_chord_time s"
proof -
  from assms(1) obtain s1 evs0 evs1 where
    h0: "process_hand s results clock 0 = Inr (s1, evs0)" and
    h1: "process_hand s1 results clock 1 = Inr (s', evs1)" and e: "evs = evs0 @ evs1"
    by (rule process_Inr)
  show ?thesis
    using process_hand_window[OF h0 assms(2)] process_hand_window[OF h1] assms(3)
    unfolding e chords_append by auto
qed

lemma no_clash_observed:
  assumes "\<not> same_side_clash results" "observed sd results 0 f0" "observed sd results 1 f1"
  shows "f0 = f1"
proof -
  obtain l0 t0 where fp0: "find_positions results 0 = (l0, t0)" by (cases "find_positions results 0")
  obtain l1 t1 where fp1: "find_positions results 1 = (l1, t1)" by (cases "find_positions results 1")
  have a: "l0 \<noteq> []" "t0 = Some (side_label sd)" "fingers_up l0 t0 = Inr f0"
    using assms(2) fp0 by (auto simp: observed_def)
  have b: "l1 \<noteq> []" "t1 = Some (side_label sd)" "fingers_up l1 t1 = Inr f1"
    using assms(3) fp1 by (auto simp: observed_def)
  have "t0 = Some ''Right'' \<or> t0 = Some ''Left''" using a(2) by (cases sd) simp_all
  then have "fingers_up l0 t0 = fingers_up l1 t1"
    using assms(1) fp0 fp1 a(1,2) b(1,2) by (simp add: same_side_clash_def)
  then show ?thesis using a(3) b(3) by simp
qed

lemma process_take: "process s (take 2 results) clock = process s results clock"
  by (simp add: process_def process_hand_take cong: sum.case_cong prod.case_cong)

lemma process_twice_no_events:
  assumes "process s results clock = Inr (s1, evs1)"
      and "\<forall>sd f0 f1. observed sd results 0 f0 \<and> observed sd results 1 f1 \<longrightarrow> f0 = f1"
  shows "process s1 results clock = Inr (s1, [])"
proof -
  from assms(1) obtain sa e0 e1 where
    h0: "process_hand s results clock 0 = Inr (sa, e0)" and
    h1: "process_hand sa results clock 1 = Inr (s1, e1)"
    by (rule process_Inr)
  have r0: "process_hand s1 results clock 0 = Inr (s1, [])"
    using process_hand_cases[OF h0]
  proof (elim disjE exE conjE)
    assume "\<forall>sd f. \<not> observed sd results 0 f"
    then show ?thesis using process_hand_skip[OF h0] by simp
  next
    fix sd0 f0
    assume o0: "observed sd0 results 0 f0"
      and p0: "process_side sd0 s f0 (is_fist f0) (clock 0) = Inr (sa, e0)"
    have st: "previous_fingers sd0 sa = f0 \<and> last_fist sd0 sa = is_fist f0"
      using process_side_Inr(2,3)[OF p0] by simp
    have "previous_fingers sd0 s1 = f0 \<and> last_fist sd0 s1 = is_fist f0"
      using process_hand_cases[OF h1]
    proof (elim disjE exE conjE)
      assume "s1 = sa"
      then show ?thesis using st by simp
    next
      fix sd1 f1
      assume o1: "observed sd1 results 1 f1"
        and p1: "process_side sd1 sa f1 (is_fist f1) (clock 1) = Inr (s1, e1)"
      show ?thesis
      proof (cases "sd1 = sd0")
        case True
        then have "f0 = f1" using assms(2) o0 o1 by blast
        then show ?thesis using process_side_Inr(2,3)[OF p1] True by simp
      next
        case False
        then have "sd0 \<noteq> sd1" by simp
        from process_side_Inr(5,6)[OF p1 this] st show ?thesis by simp
      qed
    qed
    then show ?thesis using process_hand_stable[OF o0] by simp
  qed
  have r1: "process_hand s1 results clock 1 = Inr (s1, [])"
    using process_hand_cases[OF h1]
  proof (elim disjE exE conjE)
    assume "\<forall>sd f. \<not> observed sd results 1 f"
    then show ?thesis using process_hand_skip[OF h1] by simp
  next
    fix sd1 f1
    assume o1: "observed sd1 results 1 f1"
      and p1: "process_side sd1 sa f1 (is_fist f1) (clock 1) = Inr (s1, e1)"
    show ?thesis
      using process_hand_stable[OF o1] process_side_Inr(2,3)[OF p1] by simp
  qed
  show ?thesis using r0 r1 by (simp add: process_def)
qed

lemma single_hand_frame:
  assumes "observed sd results 0 f" "length results = 1" "length (previous_fingers sd s) = 5"
  shows "\<exists>s'. process s results clock =
           Inr (s', edge_events sd (previous_fingers sd s) 0 f
                      @ (if chord_due sd s (is_fist f) (clock 0) then [Chord (hand_notes sd)] else []))
         \<and> previous_fingers sd s' = f \<and> last_fist sd s' = is_fist f
         \<and> last_chord_time s' = (if chord_due sd s (is_fist f) (clock 0) then clock 0 else last_chord_time s)"
proof -
  have len: "length f = 5" using observed_shape[OF assms(1)] by simp
  obtain s' where ps: "process_side sd s f (is_fist f) (clock 0) =
      Inr (s', edge_events sd (previous_fingers sd s) 0 f
                 @ (if chord_due sd s (is_fist f) (clock 0) then [Chord (hand_notes sd)] else []))"
    using process_side_total[OF assms(3) len] by blast
  have h0: "process_hand s results clock 0 = Inr (s', edge_events sd (previous_fingers sd s) 0 f
                 @ (if chord_due sd s (is_fist f) (clock 0) then [Chord (hand_notes sd)] else []))"
    using process_hand_observed_eq[OF assms(1)] ps by simp
  have h1: "process_hand s' results clock 1 = Inr (s', [])"
    using process_hand_absent[of 1 results] assms(2) by simp
  show ?thesis
    using h0 h1 process_side_Inr(2,3,4)[OF ps] by (simp add: process_def)
qed




subsection \<open>A run of frames\<close>

lemma main_loop_window:
  assumes "main_loop s frames = Inr (s', evss)"
    "\<forall>fr \<in> set frames. snd fr 0 - last_chord_time s \<le> 1 \<and> snd fr 1 - last_chord_time s \<le> 1"
  shows "(\<forall>evs \<in> set evss. chords evs = []) \<and> last_chord_time s' = last_chord_time s"
  using assms
proof (induction frames arbitrary: s evss)
  case Nil
  then show ?case by simp
next
  case (Cons fr frames)
  obtain results clock where fr: "fr = (results, clock)" by (cases fr)
  from Cons.prems(1) fr obtain s1 evs evss1 where
    p: "process s results clock = Inr (s1, evs)" and
    m: "main_loop s1 frames = Inr (s', evss1)" and e: "evss = evs # evss1"
    by (auto split: sum.splits)
  have w: "chords evs = [] \<and> last_chord_time s1 = last_chord_time s"
    using process_window[OF p] Cons.prems(2) fr by simp
  have "\<forall>fr \<in> set frames. snd fr 0 - last_chord_time s1 \<le> 1 \<and> snd fr 1 - last_chord_time s1 \<le> 1"
    using Cons.prems(2) w by simp
  from Cons.IH[OF m this] w e show ?case by simp
qed

lemma main_loop_total:
  assumes "wf_state s" "\<forall>fr \<in> set frames. wf_results (fst fr)"
  shows "\<exists>s' evss. main_loop s frames = Inr (s', evss) \<and> wf_state s'"
  using assms
proof (induction frames arbitrary: s)
  case Nil
  then show ?case by simp
next
  case (Cons fr frames)
  obtain results clock where fr: "fr = (results, clock)" by (cases fr)
  obtain s1 evs where p: "process s results clock = Inr (s1, evs)" "wf_state s1"
    using process_total[OF Cons.prems(1), of results clock] Cons.prems(2) fr by auto
  obtain s2 evss where "main_loop s1 frames = Inr (s2, evss)" "wf_state s2"
    using Cons.IH[OF p(2)] Cons.prems(2) by auto
  with p fr show ?case by simp
qed

lemma list_all_window:
  assumes "list_all (\<lambda>fr. snd fr 0 \<le> T + 1 \<and> snd fr 1 \<le> T + 1) frames" "last_chord_time s = T"
  shows "\<forall>fr \<in> set frames. snd fr 0 - last_chord_time s \<le> 1 \<and> snd fr 1 - last_chord_time s \<le> (1::real)"
  using assms by (auto simp: list_all_iff)


subsection \<open>Key flags, ignored observations and the timer\<close>

lemma main_loop_no_chord:
  assumes "main_loop s frames = Inr (s', evss)" "list_all (\<lambda>evs. chords evs = []) evss"
  shows "last_chord_time s' = last_chord_time s"
  using assms
proof (induction frames arbitrary: s evss)
  case Nil
  then show ?case by simp
next
  case (Cons fr frames)
  obtain results clock where fr: "fr = (results, clock)" by (cases fr)
  from Cons.prems(1) fr obtain s1 evs evss1 where
    p: "process s results clock = Inr (s1, evs)" and
    m: "main_loop s1 frames = Inr (s', evss1)" and e: "evss = evs # evss1"
    by (auto split: sum.splits)
  have "chords evs = []" "list_all (\<lambda>evs. chords evs = []) evss1"
    using Cons.prems(2) e by simp_all
  then show ?case
    using process_timer[OF p] Cons.IH[OF m] by simp
qed











lemma hand_processed:
  assumes "process_hand s results clock i = Inr (s', evs)" and "observed sd results i f"
  shows "previous_fingers sd s' = f" and "last_fist sd s' = is_fist f"
    and "note_events evs = edge_events sd (previous_fingers sd s) 0 f"
    and "sd' \<noteq> sd \<Longrightarrow> previous_fingers sd' s' = previous_fingers sd' s"
    and "sd' \<noteq> sd \<Longrightarrow> last_fist sd' s' = last_fist sd' s"
proof -
  have ps: "process_side sd s f (is_fist f) (clock i) = Inr (s', evs)"
    using process_hand_observed[OF assms] .
  show "previous_fingers sd s' = f" "last_fist sd s' = is_fist f"
    using process_side_Inr(2,3)[OF ps] by simp_all
  show "note_events evs = edge_events sd (previous_fingers sd s) 0 f"
    using process_side_note_events[OF ps] .
  show "sd' \<noteq> sd \<Longrightarrow> previous_fingers sd' s' = previous_fingers sd' s"
    using process_side_Inr(5)[OF ps] by simp
  show "sd' \<noteq> sd \<Longrightarrow> last_fist sd' s' = last_fist sd' s"
    using process_side_Inr(6)[OF ps] by simp
qed

lemma hand_ignored:
  assumes "process_hand s results clock i = Inr (s', evs)" and "no_side results i"
  shows "s' = s \<and> evs = []"
  using process_hand_Inr[OF assms(1)]
proof (elim disjE exE conjE)
  assume "s' = s" "evs = []"
  then show ?thesis by simp
next
  fix sd f
  assume "fst (find_positions results i) \<noteq> []"
    "snd (find_positions results i) = Some (side_label sd)"
  then have "of_side sd results i" by (simp add: of_side_def)
  then show ?thesis using assms(2) by (cases sd) (simp_all add: no_side_def)
qed

lemma chord_scenario_at:
  assumes "observed Right results1 0 [1, 1, 1, 1, 1]" and "length results1 = 1"
      and "observed Right results2 0 [0, 0, 0, 0, 0]" and "length results2 = 1"
  shows "events_of (main_loop init [(results1, clock1), (results2, clock_at t)])
           = Inr [map NoteOn right_hand_notes,
                  map NoteOff right_hand_notes @ (if 1 < t then [Chord right_hand_notes] else [])]
       \<and> (events_of (main_loop init ((results1, clock1) # (results2, clock_at t) # frames)) = Inr evss
            \<and> list_all (\<lambda>fr. snd fr 0 \<le> (if 1 < t then t else 0) + 1
                             \<and> snd fr 1 \<le> (if 1 < t then t else 0) + 1) frames
          \<longrightarrow> list_all (\<lambda>evs. chords evs = []) (drop 2 evss))"
proof -
  have i: "length (previous_fingers Right init) = 5" "previous_fingers Right init = [0, 0, 0, 0, 0]"
    "last_chord_time init = 0" "\<not> last_fist Right init"
    by (simp_all add: init_def)
  have nf: "\<not> is_fist [1, 1, 1, 1, 1]" and fi: "is_fist [0, 0, 0, 0, 0]"
    by (simp_all add: is_fist_def)
  have nd: "\<not> chord_due Right init False (clock1 0)" by (simp add: chord_due_def)
  obtain s1 where s1: "process init results1 clock1 = Inr (s1, map NoteOn right_hand_notes)"
    "previous_fingers Right s1 = [1, 1, 1, 1, 1]" "last_fist Right s1 = False"
    "last_chord_time s1 = 0"
    using single_hand_frame[OF assms(1,2) i(1), of clock1] i(2,3) nf nd
    by (auto simp: edge_events_all_on simp del: edge_events.simps)
  have d: "chord_due Right s1 True t \<longleftrightarrow> 1 < t"
    using s1(3,4) by (simp add: chord_due_def chord_cooldown_def)
  have l1: "length (previous_fingers Right s1) = 5" using s1(2) by simp
  obtain s2 where s2: "process s1 results2 (clock_at t) =
      Inr (s2, map NoteOff right_hand_notes @ (if 1 < t then [Chord right_hand_notes] else []))"
    "last_chord_time s2 = (if 1 < t then t else 0)"
    using single_hand_frame[OF assms(3,4) l1, of "clock_at t"] s1(2,4) fi d
    by (auto simp: edge_events_all_off clock_at_def simp del: edge_events.simps)
  have a: "events_of (main_loop init [(results1, clock1), (results2, clock_at t)])
           = Inr [map NoteOn right_hand_notes,
                  map NoteOff right_hand_notes @ (if 1 < t then [Chord right_hand_notes] else [])]"
    using s1(1) s2(1) by (simp add: events_of_def)
  have b: "list_all (\<lambda>evs. chords evs = []) (drop 2 evss)"
    if r: "events_of (main_loop init ((results1, clock1) # (results2, clock_at t) # frames)) = Inr evss"
      and w: "list_all (\<lambda>fr. snd fr 0 \<le> (if 1 < t then t else 0) + 1
                             \<and> snd fr 1 \<le> (if 1 < t then t else 0) + 1) frames"
  proof -
    from r s1(1) s2(1) obtain s3 evss' where
      m: "main_loop s2 frames = Inr (s3, evss')" and e: "drop 2 evss = evss'"
      by (auto simp: events_of_def split: sum.splits)
    have "\<forall>evs \<in> set evss'. chords evs = []"
      using main_loop_window[OF m list_all_window[OF w s2(2)]] by simp
    then show ?thesis using e by (simp add: list_all_iff)
  qed
  show ?thesis using a b by blast
qed

subsection \<open>The concrete runs\<close>

lemma find_positions_open_left:
  "fst (find_positions [hand_open_left] 0) =
     [(0,0,100),(1,1,99),(2,2,98),(3,3,97),(4,4,96),(5,5,95),(6,6,94),(7,7,93),(8,8,92),
      (9,9,91),(10,10,90),(11,11,89),(12,12,88),(13,13,87),(14,14,86),(15,15,85),(16,16,84),
      (17,17,83),(18,18,82),(19,19,81),(20,20,80)]"
  by code_simp

lemma observed_open_right: "observed Right [hand_open_right] 0 [1, 1, 1, 1, 1]"
  by code_simp

lemma observed_fist_right: "observed Right [hand_fist_right] 0 [0, 0, 0, 0, 0]"
  by code_simp

lemma frame_fist_5: "process init [hand_fist_right] (clock_at 5) = Inr (s_fist, [Chord right_hand_notes])"
  by code_simp

lemma frame_open_55:
  "process s_fist [hand_open_right] (clock_at 5.5) = Inr (s_open, map NoteOn right_hand_notes)"
  by code_simp

lemma frame_two_rights:
  "process init [hand_open_right, hand_fist_right] (clock_at 5)
     = Inr (s_fist, map NoteOn right_hand_notes @ map NoteOff right_hand_notes @ [Chord right_hand_notes])"
  by code_simp

lemma frame_two_rights_again:
  "process s_fist [hand_open_right, hand_fist_right] (clock_at 5)
     = Inr (s_second, map NoteOn right_hand_notes @ map NoteOff right_hand_notes)"
  by code_simp

lemma frame_open_only:
  "process init [hand_open_right] (clock_at 5) = Inr (s_open_only, map NoteOn right_hand_notes)"
  by code_simp

lemma frame_two_hands:
  "process init [hand_open_right, hand_fist_left] (clock_at 5)
     = Inr (s_two_hands, map NoteOn right_hand_notes @ [Chord left_hand_notes])"
  by code_simp

lemma no_clash_two_hands: "\<not> same_side_clash [hand_open_right, hand_fist_left]"
  by code_simp

lemma frame_three_hands:
  "process init [hand_open_right, hand_fist_right, hand_open_left] (clock_at 5)
     = Inr (s_fist, map NoteOn right_hand_notes @ map NoteOff right_hand_notes @ [Chord right_hand_notes])"
  by code_simp

lemma observed_three_0: "observed Right [hand_open_right, hand_fist_right, hand_open_left] 0 [1, 1, 1, 1, 1]"
  by code_simp

lemma observed_three_1: "observed Right [hand_open_right, hand_fist_right, hand_open_left] 1 [0, 0, 0, 0, 0]"
  by code_simp

lemma observed_fist_left: "observed Left [hand_fist_left] 0 [0, 0, 0, 0, 0]"
  by code_simp

lemma window_left:
  "main_loop s_fist [([hand_fist_left], clock_at 5.5), ([hand_open_left], clock_at 5.8)]
     = Inr (s_left_open, [[], map NoteOn (rev left_hand_notes)])"
  by code_simp

lemma hand_left_fist_6:
  "process_hand s_left_open [hand_fist_left] (clock_at 6) 0
     = Inr (s_left_fist, map NoteOff (rev left_hand_notes))"
  by code_simp

lemma hand_left_fist_65:
  "process_hand s_left_open [hand_fist_left] (clock_at 6.5) 0
     = Inr (s_left_chord, map NoteOff (rev left_hand_notes) @ [Chord left_hand_notes])"
  by code_simp


lemma run_open_7:
  "main_loop s_fist [([hand_open_right], clock_at 7)] = Inr (s_open, [map NoteOn right_hand_notes])"
  by code_simp

lemma hand_right_fist_75:
  "process_hand s_open [hand_fist_right] (clock_at 7.5) 0
     = Inr (s_fist_late, map NoteOff right_hand_notes @ [Chord right_hand_notes])"
  by code_simp










lemma run_epoch:
  "events_of (main_loop init
      [([hand_open_right], clock_at (1700000000 + 0.2)),
       ([hand_fist_right], clock_at (1700000000 + 0.3)),
       ([hand_open_right], clock_at (1700000000 + 0.8)),
       ([hand_fist_right], clock_at (1700000000 + 1.3))])
     = Inr [map NoteOn right_hand_notes, map NoteOff right_hand_notes @ [Chord right_hand_notes],
            map NoteOn right_hand_notes, map NoteOff right_hand_notes]"
  by code_simp

lemma frame_other: "process init [hand_other] (clock_at 5) = Inr (init, [])"
  by code_simp

lemma frame_other_open:
  "process init [hand_other, hand_open_right] (clock_at 5)
     = Inr (s_open_only, map NoteOn right_hand_notes)"
  by code_simp

lemma no_side_other:
  "no_side [hand_other] 0" "no_side [hand_other] 1" "no_side [hand_other, hand_open_right] 0"
  by code_simp+

lemma observed_other_open: "observed Right [hand_other, hand_open_right] 1 [1, 1, 1, 1, 1]"
  by code_simp

lemma observed_two_hands:
  "observed Right [hand_open_right, hand_fist_left] 0 [1, 1, 1, 1, 1]"
  "observed Left [hand_open_right, hand_fist_left] 1 [0, 0, 0, 0, 0]"
  by code_simp+
section \<open>The finger-state extractor\<close>

text \<open>
  C9. An observation without landmarks: \<^verbatim>\<open>fingers_up\<close> does not fail on the empty landmark
  list, whatever the hand type, and returns the vector of five zeros (all fingers down).
\<close>

theorem fingers_up_empty: "fingers_up [] hand_type = Inr [0, 0, 0, 0, 0]"
  by (simp add: fingers_up_def)

text \<open>
  C6. On a list of 21 landmarks \<^verbatim>\<open>fingers_up\<close> returns five flags. The thumb flag compares
  the x coordinates of landmark 4 (the thumb tip) and landmark 2 (its base): for the hand
  type \<^verbatim>\<open>"Right"\<close> it is 1 iff the tip's x is strictly smaller, for any other hand type,
  \<^verbatim>\<open>"Left"\<close> among them, it is 1 iff the tip's x is strictly greater. The flag of each other
  finger is 1 iff the y of its tip (landmarks 8, 12, 16, 20) is strictly smaller than the
  y of the landmark two positions below (6, 10, 14, 18).
\<close>

theorem fingers_up_flags:
  assumes "length landmark_list = 21"
  shows "fingers_up landmark_list hand_type =
     Inr [if hand_type = Some ''Right''
          then (if lm_x (landmark_list ! 4) < lm_x (landmark_list ! 2) then 1 else 0)
          else (if lm_x (landmark_list ! 4) > lm_x (landmark_list ! 2) then 1 else 0),
          if lm_y (landmark_list ! 8) < lm_y (landmark_list ! 6) then 1 else 0,
          if lm_y (landmark_list ! 12) < lm_y (landmark_list ! 10) then 1 else 0,
          if lm_y (landmark_list ! 16) < lm_y (landmark_list ! 14) then 1 else 0,
          if lm_y (landmark_list ! 20) < lm_y (landmark_list ! 18) then 1 else 0]"
  using assms
  by (auto simp add: fingers_up_def thumb_up_def nth_py_def finger_tips_def finger_bases_def)

text \<open>
  The open left hand of the concrete frames: all five flags under the label \<^verbatim>\<open>"Left"\<close>, and
  the thumb flag down when the same landmarks are read as a right hand.
\<close>

theorem fingers_up_flags_witness:
  "length (fst (find_positions [hand_open_left] 0)) = 21
   \<and> fingers_up (fst (find_positions [hand_open_left] 0)) (Some ''Left'') = Inr [1, 1, 1, 1, 1]
   \<and> fingers_up (fst (find_positions [hand_open_left] 0)) (Some ''Right'') = Inr [0, 1, 1, 1, 1]"
proof -
  have h: "length (fst (find_positions [hand_open_left] 0)) = 21"
    by (simp add: find_positions_open_left)
  show ?thesis
    using h fingers_up_flags[OF h, of "Some ''Left''"] fingers_up_flags[OF h, of "Some ''Right''"]
    by (simp add: find_positions_open_left lm_x_def lm_y_def)
qed

section \<open>The note of a finger\<close>

text \<open>
  C4. The right hand's fingers 0 to 4 select the notes of \<^verbatim>\<open>right_hand_notes\<close> in order;
  the left hand's finger \<open>i\<close> selects element \<open>4 - i\<close> of \<^verbatim>\<open>left_hand_notes\<close>, so the little
  finger plays its first note and the thumb its last. Both lists ascend in the frequency
  table of the sound player.
\<close>

theorem note_for_mapping:
  "map (note_for Right) [0, 1, 2, 3, 4] = map Inr right_hand_notes
   \<and> map (note_for Left) [0, 1, 2, 3, 4]
       = map (\<lambda>i. Inr (left_hand_notes ! (4 - i))) [0, 1, 2, 3, 4]
   \<and> note_for Left 4 = Inr (hd left_hand_notes)
   \<and> note_for Left 0 = Inr (last left_hand_notes)
   \<and> ascending right_hand_notes \<and> ascending left_hand_notes"
proof -
  have "ascending right_hand_notes" by code_simp
  moreover have "ascending left_hand_notes" by code_simp
  ultimately show ?thesis
    by (simp add: note_for_def nth_py_def right_hand_notes_def left_hand_notes_def)
qed

section \<open>Note edges\<close>




section \<open>Sides without an observation\<close>

text \<open>
  C7. A frame in which neither of the two observations looked at has landmarks and the
  label of side \<open>sd\<close> (the side is absent, or the labels are something else) leaves the
  stored vector, the fist flag and the keys of \<open>sd\<close> as they were, and none of its events
  is a \<open>NoteOn\<close> or \<open>NoteOff\<close> of a note of \<open>sd\<close> or the chord of \<open>sd\<close>.
\<close>

theorem unobserved_side_untouched:
  assumes "process s results clock = Inr (s', evs)"
    and "list_all (\<lambda>h. landmark h = [] \<or> label h \<noteq> Some (side_label sd)) (take 2 results)"
  shows "previous_fingers sd s' = previous_fingers sd s \<and> last_fist sd s' = last_fist sd s
       \<and> piano_keys sd s' = piano_keys sd s \<and> filter (event_of_side sd) evs = []"
proof -
  from assms(1) obtain s1 evs0 evs1 where
    h0: "process_hand s results clock 0 = Inr (s1, evs0)" and
    h1: "process_hand s1 results clock 1 = Inr (s', evs1)" and e: "evs = evs0 @ evs1"
    by (rule process_Inr)
  have skip: "fst (find_positions results i) = [] \<or> snd (find_positions results i) \<noteq> Some (side_label sd)"
    if "i < 2" for i
    using find_positions_take2[OF that, of results] assms(2)
    by (auto simp: list_all_iff)
  show ?thesis
    using process_hand_other_side[OF h0 skip[of 0]] process_hand_other_side[OF h1 skip[of 1]] e
    by simp
qed

text \<open>
  A frame with the open right hand only: the left side is untouched.
\<close>

theorem unobserved_side_untouched_witness:
  "process s_fist [hand_open_right] (clock_at 5.5) = Inr (s_open, map NoteOn right_hand_notes)
   \<and> list_all (\<lambda>h. landmark h = [] \<or> label h \<noteq> Some (side_label Left)) (take 2 [hand_open_right])
   \<and> previous_fingers Left s_open = previous_fingers Left s_fist
   \<and> last_fist Left s_open = last_fist Left s_fist
   \<and> piano_keys Left s_open = piano_keys Left s_fist
   \<and> filter (event_of_side Left) (map NoteOn right_hand_notes) = []"
proof -
  have h: "list_all (\<lambda>h. landmark h = [] \<or> label h \<noteq> Some (side_label Left)) (take 2 [hand_open_right])"
    by (simp add: hand_open_right_def)
  show ?thesis
    using unobserved_side_untouched[OF frame_open_55 h] frame_open_55 h by simp
qed

section \<open>The cooldown timer\<close>

text \<open>
  C10. Over a frame \<^verbatim>\<open>last_chord_time\<close> changes iff the frame emits a chord, and then it is
  the clock reading taken for one of the two hands, which is the timestamp of the frame
  when both readings are the same. A closing fist that the cooldown suppresses emits no
  chord, so it leaves the timer as it was.
\<close>

theorem timer_changes_iff_chord:
  assumes "process s results clock = Inr (s', evs)"
  shows "(last_chord_time s' \<noteq> last_chord_time s \<longleftrightarrow> chords evs \<noteq> [])
       \<and> (chords evs \<noteq> [] \<longrightarrow> last_chord_time s' = clock 0 \<or> last_chord_time s' = clock 1)"
  using process_timer[OF assms] .

text \<open>
  The fist at time 5 from the initial state emits the chord and sets the timer to 5; the
  open hand at 5.5 emits no chord and leaves it at 5.
\<close>

theorem timer_changes_iff_chord_witness:
  "process init [hand_fist_right] (clock_at 5) = Inr (s_fist, [Chord right_hand_notes])
   \<and> last_chord_time s_fist \<noteq> last_chord_time init
   \<and> chords [Chord right_hand_notes] \<noteq> []
   \<and> last_chord_time s_fist = clock_at 5 0
   \<and> process s_fist [hand_open_right] (clock_at 5.5) = Inr (s_open, map NoteOn right_hand_notes)
   \<and> last_chord_time s_open = last_chord_time s_fist
   \<and> chords (map NoteOn right_hand_notes) = []"
proof -
  have c: "chords [Chord right_hand_notes] \<noteq> []" by (simp add: chords_def)
  have d: "clock_at 5 0 = clock_at 5 1" by (simp add: clock_at_def)
  have e: "chords (map NoteOn right_hand_notes) = []" by (simp add: chords_def right_hand_notes_def)
  show ?thesis
    using timer_changes_iff_chord[OF frame_fist_5] timer_changes_iff_chord[OF frame_open_55]
      frame_fist_5 frame_open_55 c d e
    by simp
qed

text \<open>
  C1, as the code has it. After a frame at time \<open>T\<close> that emitted a chord: frames whose
  clock readings are all at most \<open>T + 1\<close> emit no chord, for either side; and after any
  frames that emitted no chord, whatever their clock readings, a closing fist of either
  side (a fist observed while the stored fist flag of that side is false) emits the chord
  of its side iff its clock reading is strictly more than 1.0 after \<open>T\<close>, the time of the
  last chord. At exactly \<open>T + 1\<close> it emits none.
\<close>

theorem chord_cooldown_shared:
  assumes "process s0 results0 (clock_at T) = Inr (s, evs0)" and "chords evs0 \<noteq> []"
      and "main_loop s frames = Inr (s', evss)"
      and "process_hand s' results clock i = Inr (s'', evs)"
      and "observed sd results i f" and "is_fist f" and "\<not> last_fist sd s'"
  shows "(list_all (\<lambda>fr. snd fr 0 \<le> T + 1 \<and> snd fr 1 \<le> T + 1) frames
            \<longrightarrow> list_all (\<lambda>evs. chords evs = []) evss)
       \<and> (list_all (\<lambda>evs. chords evs = []) evss
            \<longrightarrow> chords evs = (if clock i - T > 1 then [Chord (hand_notes sd)] else []))"
proof -
  have T: "last_chord_time s = T"
    using process_timer[OF assms(1)] assms(2) by (auto simp: clock_at_def)
  have a: "list_all (\<lambda>evs. chords evs = []) evss"
    if w: "list_all (\<lambda>fr. snd fr 0 \<le> T + 1 \<and> snd fr 1 \<le> T + 1) frames"
    using main_loop_window[OF assms(3) list_all_window[OF w T]] by (simp add: list_all_iff)
  have b: "chords evs = (if clock i - T > 1 then [Chord (hand_notes sd)] else [])"
    if n: "list_all (\<lambda>evs. chords evs = []) evss"
  proof -
    have l: "last_chord_time s' = T" using main_loop_no_chord[OF assms(3) n] T by simp
    have ps: "process_side sd s' f (is_fist f) (clock i) = Inr (s'', evs)"
      using process_hand_observed[OF assms(4,5)] .
    have "chord_due sd s' (is_fist f) (clock i) \<longleftrightarrow> clock i - T > 1"
      using assms(6,7) l by (simp add: chord_due_def chord_cooldown_def)
    then show ?thesis using process_side_chords[OF ps] by simp
  qed
  show ?thesis using a b by blast
qed

text \<open>
  The right hand's chord at 5 blocks the left hand's closing fist at 5.5; the left hand's
  next closing fist emits nothing at 6 and the chord of the left hand at 6.5. And after
  the right hand opens at 7, beyond the window, its closing fist at 7.5 emits the chord:
  the 1.0 is counted from the chord at 5.
\<close>

theorem chord_cooldown_shared_witness:
  "process init [hand_fist_right] (clock_at 5) = Inr (s_fist, [Chord right_hand_notes])
   \<and> chords [Chord right_hand_notes] \<noteq> []
   \<and> main_loop s_fist [([hand_fist_left], clock_at 5.5), ([hand_open_left], clock_at 5.8)]
       = Inr (s_left_open, [[], map NoteOn (rev left_hand_notes)])
   \<and> list_all (\<lambda>fr. snd fr 0 \<le> 5 + 1 \<and> snd fr 1 \<le> 5 + (1::real))
        [([hand_fist_left], clock_at 5.5), ([hand_open_left], clock_at 5.8)]
   \<and> list_all (\<lambda>evs. chords evs = []) [[], map NoteOn (rev left_hand_notes)]
   \<and> observed Left [hand_fist_left] 0 [0, 0, 0, 0, 0] \<and> is_fist [0, 0, 0, 0, 0]
   \<and> \<not> last_fist Left s_left_open
   \<and> process_hand s_left_open [hand_fist_left] (clock_at 6) 0
       = Inr (s_left_fist, map NoteOff (rev left_hand_notes))
   \<and> chords (map NoteOff (rev left_hand_notes)) = []
   \<and> process_hand s_left_open [hand_fist_left] (clock_at 6.5) 0
       = Inr (s_left_chord, map NoteOff (rev left_hand_notes) @ [Chord left_hand_notes])
   \<and> chords (map NoteOff (rev left_hand_notes) @ [Chord left_hand_notes]) = [Chord left_hand_notes]
   \<and> main_loop s_fist [([hand_open_right], clock_at 7)] = Inr (s_open, [map NoteOn right_hand_notes])
   \<and> list_all (\<lambda>evs. chords evs = []) [map NoteOn right_hand_notes]
   \<and> observed Right [hand_fist_right] 0 [0, 0, 0, 0, 0] \<and> \<not> last_fist Right s_open
   \<and> process_hand s_open [hand_fist_right] (clock_at 7.5) 0
       = Inr (s_fist_late, map NoteOff right_hand_notes @ [Chord right_hand_notes])
   \<and> chords (map NoteOff right_hand_notes @ [Chord right_hand_notes]) = [Chord right_hand_notes]"
proof -
  have c: "chords [Chord right_hand_notes] \<noteq> []" by (simp add: chords_def)
  have w: "list_all (\<lambda>fr. snd fr 0 \<le> 5 + 1 \<and> snd fr 1 \<le> 5 + (1::real))
        [([hand_fist_left], clock_at 5.5), ([hand_open_left], clock_at 5.8)]"
    by (simp add: clock_at_def)
  have f: "is_fist [0, 0, 0, 0, 0]" by (simp add: is_fist_def)
  have l: "\<not> last_fist Left s_left_open" by (simp add: s_left_open_def s_fist_def init_def)
  have r: "\<not> last_fist Right s_open" by (simp add: s_open_def init_def)
  have n: "list_all (\<lambda>evs. chords evs = []) [map NoteOn right_hand_notes]"
    by (simp add: chords_def right_hand_notes_def)
  show ?thesis
    using chord_cooldown_shared[OF frame_fist_5 c window_left hand_left_fist_6 observed_fist_left f l]
      chord_cooldown_shared[OF frame_fist_5 c window_left hand_left_fist_65 observed_fist_left f l]
      chord_cooldown_shared[OF frame_fist_5 c run_open_7 hand_right_fist_75 observed_fist_right f r]
      frame_fist_5 c window_left w hand_left_fist_6 hand_left_fist_65 observed_fist_left f l
      run_open_7 hand_right_fist_75 observed_fist_right r n
    by (simp add: clock_at_def)
qed

text \<open>
  C1 as stated fails: with the chord at time 5, the next closing fist at time 6, when 1.0
  has elapsed, emits the five \<open>NoteOff\<close> events and no chord.
\<close>

theorem chord_cooldown_counterexample:
  "events_of (main_loop init [([hand_fist_right], clock_at 5), ([hand_open_right], clock_at 5.5),
                              ([hand_fist_right], clock_at 6)])
     = Inr [[Chord right_hand_notes], map NoteOn right_hand_notes, map NoteOff right_hand_notes]"
  by code_simp

text \<open>
  C3. The clock is \<^verbatim>\<open>time.time()\<close>, seconds since the epoch, so the session starts at a
  reading \<open>T0\<close> far above 0.7 and the times of the scenario are offsets from it. From the
  initial state, a frame with the right hand alone and all five fingers extended, then
  such a frame at \<open>T0 + 0.3\<close> with all five fingers down: the first emits the five
  \<open>NoteOn\<close> events, the second exactly the five \<open>NoteOff\<close> events and then the chord of the
  right hand, and no later frame whose clock readings are at most \<open>T0 + 1.3\<close> emits a chord.
\<close>

theorem chord_scenario:
  assumes "observed Right results1 0 [1, 1, 1, 1, 1]" and "length results1 = 1"
      and "observed Right results2 0 [0, 0, 0, 0, 0]" and "length results2 = 1"
      and "T0 > 0.7"
  shows "events_of (main_loop init [(results1, clock1), (results2, clock_at (T0 + 0.3))])
           = Inr [map NoteOn right_hand_notes,
                  map NoteOff right_hand_notes @ [Chord right_hand_notes]]
       \<and> (events_of (main_loop init ((results1, clock1) # (results2, clock_at (T0 + 0.3)) # frames))
              = Inr evss
            \<and> list_all (\<lambda>fr. snd fr 0 \<le> T0 + 1.3 \<and> snd fr 1 \<le> T0 + 1.3) frames
          \<longrightarrow> list_all (\<lambda>evs. chords evs = []) (drop 2 evss))"
proof -
  have t: "1 < T0 + 0.3" using assms(5) by simp
  have e: "T0 + 0.3 + 1 = T0 + 1.3" by simp
  show ?thesis
    using chord_scenario_at[OF assms(1-4), of clock1 "T0 + 0.3" frames evss] t
    by (simp add: e)
qed

text \<open>
  The scenario for a session that starts 1700000000 seconds after the epoch: the chord at
  offset 0.3, and none for the closing fist at offset 1.3.
\<close>

theorem chord_scenario_witness:
  "observed Right [hand_open_right] 0 [1, 1, 1, 1, 1] \<and> length [hand_open_right] = 1
   \<and> observed Right [hand_fist_right] 0 [0, 0, 0, 0, 0] \<and> length [hand_fist_right] = 1
   \<and> (1700000000::real) > 0.7
   \<and> events_of (main_loop init
        [([hand_open_right], clock_at (1700000000 + 0.2)),
         ([hand_fist_right], clock_at (1700000000 + 0.3))])
       = Inr [map NoteOn right_hand_notes, map NoteOff right_hand_notes @ [Chord right_hand_notes]]
   \<and> events_of (main_loop init
        [([hand_open_right], clock_at (1700000000 + 0.2)),
         ([hand_fist_right], clock_at (1700000000 + 0.3)),
         ([hand_open_right], clock_at (1700000000 + 0.8)),
         ([hand_fist_right], clock_at (1700000000 + 1.3))])
       = Inr [map NoteOn right_hand_notes, map NoteOff right_hand_notes @ [Chord right_hand_notes],
              map NoteOn right_hand_notes, map NoteOff right_hand_notes]
   \<and> list_all (\<lambda>fr. snd fr 0 \<le> 1700000000 + 1.3 \<and> snd fr 1 \<le> 1700000000 + (1.3::real))
        [([hand_open_right], clock_at (1700000000 + 0.8)),
         ([hand_fist_right], clock_at (1700000000 + 1.3))]
   \<and> list_all (\<lambda>evs. chords evs = [])
        (drop 2 [map NoteOn right_hand_notes, map NoteOff right_hand_notes @ [Chord right_hand_notes],
                 map NoteOn right_hand_notes, map NoteOff right_hand_notes])"
proof -
  have l: "length [hand_open_right] = 1" "length [hand_fist_right] = 1" by simp_all
  have t: "(1700000000::real) > 0.7" by simp
  have w: "list_all (\<lambda>fr. snd fr 0 \<le> 1700000000 + 1.3 \<and> snd fr 1 \<le> 1700000000 + (1.3::real))
        [([hand_open_right], clock_at (1700000000 + 0.8)),
         ([hand_fist_right], clock_at (1700000000 + 1.3))]"
    by (simp add: clock_at_def)
  show ?thesis
    using chord_scenario[OF observed_open_right l(1) observed_fist_right l(2) t,
        of "clock_at (1700000000 + 0.2)"
           "[([hand_open_right], clock_at (1700000000 + 0.8)),
             ([hand_fist_right], clock_at (1700000000 + 1.3))]"
           "[map NoteOn right_hand_notes, map NoteOff right_hand_notes @ [Chord right_hand_notes],
             map NoteOn right_hand_notes, map NoteOff right_hand_notes]"]
      run_epoch observed_open_right observed_fist_right w
    by simp
qed

section \<open>Two observations in a frame\<close>

text \<open>
  C5, as the code has it. A frame looks at the observations at positions 0 and 1 of the
  detector's result, in that order, and at nothing beyond them. Each of the two that has
  landmarks and the label \<^verbatim>\<open>"Left"\<close> or \<^verbatim>\<open>"Right"\<close> is processed, compared with the vector
  stored for its side and stored in its place; one with another label is ignored. So with
  two observations of sides \<open>sd0\<close> and \<open>sd1\<close> both are processed, of different sides or of
  the same: when the side is the same the second is compared with the vector of the first,
  and the vector and fist flag stored at the end are those of the second. With one
  observation of a side only that one is processed, and with none the frame changes
  nothing and emits nothing.
\<close>

theorem both_observations_processed:
  assumes "process s results clock = Inr (s', evs)"
  shows "process s (take 2 results) clock = Inr (s', evs)
       \<and> (observed sd0 results 0 f0 \<and> observed sd1 results 1 f1 \<longrightarrow>
            previous_fingers sd1 s' = f1 \<and> last_fist sd1 s' = is_fist f1
          \<and> (sd0 \<noteq> sd1 \<longrightarrow> previous_fingers sd0 s' = f0 \<and> last_fist sd0 s' = is_fist f0)
          \<and> note_events evs =
              edge_events sd0 (previous_fingers sd0 s) 0 f0
              @ edge_events sd1 (if sd1 = sd0 then f0 else previous_fingers sd1 s) 0 f1)
       \<and> (observed sd0 results 0 f0 \<and> no_side results 1 \<longrightarrow>
            previous_fingers sd0 s' = f0 \<and> last_fist sd0 s' = is_fist f0
          \<and> note_events evs = edge_events sd0 (previous_fingers sd0 s) 0 f0)
       \<and> (no_side results 0 \<and> observed sd1 results 1 f1 \<longrightarrow>
            previous_fingers sd1 s' = f1 \<and> last_fist sd1 s' = is_fist f1
          \<and> note_events evs = edge_events sd1 (previous_fingers sd1 s) 0 f1)
       \<and> (no_side results 0 \<and> no_side results 1 \<longrightarrow> s' = s \<and> evs = [])"
proof -
  from assms obtain sa e0 e1 where
    h0: "process_hand s results clock 0 = Inr (sa, e0)" and
    h1: "process_hand sa results clock 1 = Inr (s', e1)" and e: "evs = e0 @ e1"
    by (rule process_Inr)
  have t: "process s (take 2 results) clock = Inr (s', evs)"
    using assms by (simp add: process_take)
  have both: "previous_fingers sd1 s' = f1 \<and> last_fist sd1 s' = is_fist f1
          \<and> (sd0 \<noteq> sd1 \<longrightarrow> previous_fingers sd0 s' = f0 \<and> last_fist sd0 s' = is_fist f0)
          \<and> note_events evs =
              edge_events sd0 (previous_fingers sd0 s) 0 f0
              @ edge_events sd1 (if sd1 = sd0 then f0 else previous_fingers sd1 s) 0 f1"
    if o0: "observed sd0 results 0 f0" and o1: "observed sd1 results 1 f1"
  proof -
    have mid: "previous_fingers sd1 sa = (if sd1 = sd0 then f0 else previous_fingers sd1 s)"
      using hand_processed(1)[OF h0 o0] hand_processed(4)[OF h0 o0, of sd1] by simp
    have keep: "sd0 \<noteq> sd1 \<longrightarrow> previous_fingers sd0 s' = f0 \<and> last_fist sd0 s' = is_fist f0"
      using hand_processed(1,2)[OF h0 o0] hand_processed(4,5)[OF h1 o1, of sd0] by simp
    show ?thesis
      using hand_processed(1,2,3)[OF h1 o1] hand_processed(3)[OF h0 o0] mid keep
      unfolding e by (simp add: note_events_append)
  qed
  have first: "previous_fingers sd0 s' = f0 \<and> last_fist sd0 s' = is_fist f0
          \<and> note_events evs = edge_events sd0 (previous_fingers sd0 s) 0 f0"
    if o0: "observed sd0 results 0 f0" and n1: "no_side results 1"
    using hand_processed(1,2,3)[OF h0 o0] hand_ignored[OF h1 n1] unfolding e by simp
  have second: "previous_fingers sd1 s' = f1 \<and> last_fist sd1 s' = is_fist f1
          \<and> note_events evs = edge_events sd1 (previous_fingers sd1 s) 0 f1"
    if n0: "no_side results 0" and o1: "observed sd1 results 1 f1"
    using hand_ignored[OF h0 n0] hand_processed(1,2,3)[OF h1 o1] h1 unfolding e by simp
  have none: "s' = s \<and> evs = []" if n0: "no_side results 0" and n1: "no_side results 1"
    using hand_ignored[OF h0 n0] hand_ignored[OF h1] n1 h1 unfolding e by simp
  show ?thesis using t both first second none by blast
qed

text \<open>
  Three hands, the first two labelled \<^verbatim>\<open>"Right"\<close>: the third is ignored, the right hand's
  notes go on and off within the frame, and the closed hand is what is stored. The open
  right hand with the left fist: both sides are stored. A hand labelled \<^verbatim>\<open>"Other"\<close>: nothing
  happens, and the open right hand after it is processed.
\<close>

theorem both_observations_processed_witness:
  "process init [hand_open_right, hand_fist_right, hand_open_left] (clock_at 5)
     = Inr (s_fist, map NoteOn right_hand_notes @ map NoteOff right_hand_notes @ [Chord right_hand_notes])
   \<and> observed Right [hand_open_right, hand_fist_right, hand_open_left] 0 [1, 1, 1, 1, 1]
   \<and> observed Right [hand_open_right, hand_fist_right, hand_open_left] 1 [0, 0, 0, 0, 0]
   \<and> process init [hand_open_right, hand_fist_right] (clock_at 5)
     = Inr (s_fist, map NoteOn right_hand_notes @ map NoteOff right_hand_notes @ [Chord right_hand_notes])
   \<and> previous_fingers Right s_fist = [0, 0, 0, 0, 0] \<and> last_fist Right s_fist
   \<and> note_events (map NoteOn right_hand_notes @ map NoteOff right_hand_notes @ [Chord right_hand_notes])
       = map NoteOn right_hand_notes @ map NoteOff right_hand_notes
   \<and> process init [hand_open_right, hand_fist_left] (clock_at 5)
     = Inr (s_two_hands, map NoteOn right_hand_notes @ [Chord left_hand_notes])
   \<and> observed Right [hand_open_right, hand_fist_left] 0 [1, 1, 1, 1, 1]
   \<and> observed Left [hand_open_right, hand_fist_left] 1 [0, 0, 0, 0, 0]
   \<and> previous_fingers Right s_two_hands = [1, 1, 1, 1, 1] \<and> \<not> last_fist Right s_two_hands
   \<and> previous_fingers Left s_two_hands = [0, 0, 0, 0, 0] \<and> last_fist Left s_two_hands
   \<and> note_events (map NoteOn right_hand_notes @ [Chord left_hand_notes]) = map NoteOn right_hand_notes
   \<and> process init [hand_other] (clock_at 5) = Inr (init, [])
   \<and> no_side [hand_other] 0 \<and> no_side [hand_other] 1
   \<and> process init [hand_other, hand_open_right] (clock_at 5)
     = Inr (s_open_only, map NoteOn right_hand_notes)
   \<and> no_side [hand_other, hand_open_right] 0
   \<and> observed Right [hand_other, hand_open_right] 1 [1, 1, 1, 1, 1]
   \<and> previous_fingers Right s_open_only = [1, 1, 1, 1, 1]
   \<and> note_events (map NoteOn right_hand_notes) = map NoteOn right_hand_notes"
proof -
  have a: "is_fist [0, 0, 0, 0, 0]" "\<not> is_fist [1, 1, 1, 1, 1]" by (simp_all add: is_fist_def)
  have b: "previous_fingers Right init = [0, 0, 0, 0, 0]" "previous_fingers Left init = [0, 0, 0, 0, 0]"
    by (simp_all add: init_def)
  have z: "edge_events Left [0, 0, 0, 0, 0] 0 [0, 0, 0, 0, 0] = []" by simp
  show ?thesis
    using both_observations_processed[OF frame_three_hands,
        of Right "[1, 1, 1, 1, 1]" Right "[0, 0, 0, 0, 0]"]
      both_observations_processed[OF frame_two_hands,
        of Right "[1, 1, 1, 1, 1]" Left "[0, 0, 0, 0, 0]"]
      both_observations_processed[OF frame_other, of Right "[]" Right "[]"]
      both_observations_processed[OF frame_other_open,
        of Right "[]" Right "[1, 1, 1, 1, 1]"]
      frame_three_hands observed_three_0 observed_three_1 frame_two_hands observed_two_hands
      frame_other frame_other_open no_side_other observed_other_open a b z
    by (simp add: edge_events_all_on edge_events_all_off del: edge_events.simps)
qed

text \<open>
  C5 as stated fails: with an open and a closed right hand in one frame the second one
  is processed too, and the result differs from that of the first hand alone.
\<close>

theorem first_only_counterexample:
  "process init [hand_open_right, hand_fist_right] (clock_at 5)
     = Inr (s_fist, map NoteOn right_hand_notes @ map NoteOff right_hand_notes @ [Chord right_hand_notes])
   \<and> previous_fingers_right s_fist = [0, 0, 0, 0, 0]
   \<and> process init [hand_open_right] (clock_at 5) = Inr (s_open_only, map NoteOn right_hand_notes)
   \<and> previous_fingers_right s_open_only = [1, 1, 1, 1, 1]"
  using frame_two_rights frame_open_only by (simp add: s_fist_def s_open_only_def init_def)

text \<open>
  C8, as the code has it. When the two observations of a frame are not of the same side
  with different finger vectors, processing the same frame again with the same clock
  emits no event at all and leaves the state as it is.
\<close>

theorem process_twice_idempotent:
  assumes "process s results clock = Inr (s1, evs1)" and "\<not> same_side_clash results"
  shows "process s1 results clock = Inr (s1, [])"
  using process_twice_no_events[OF assms(1)] no_clash_observed[OF assms(2)] by blast

text \<open>
  The open right hand with the closed left hand.
\<close>

theorem process_twice_idempotent_witness:
  "process init [hand_open_right, hand_fist_left] (clock_at 5)
     = Inr (s_two_hands, map NoteOn right_hand_notes @ [Chord left_hand_notes])
   \<and> \<not> same_side_clash [hand_open_right, hand_fist_left]
   \<and> process s_two_hands [hand_open_right, hand_fist_left] (clock_at 5) = Inr (s_two_hands, [])"
  using process_twice_idempotent[OF frame_two_hands no_clash_two_hands]
    frame_two_hands no_clash_two_hands by simp

text \<open>
  C8 as stated fails: a frame with an open and a closed right hand, processed twice at
  time 5, emits five \<open>NoteOn\<close> and five \<open>NoteOff\<close> events the second time as well.
\<close>

theorem process_twice_counterexample:
  "process init [hand_open_right, hand_fist_right] (clock_at 5)
     = Inr (s_fist, map NoteOn right_hand_notes @ map NoteOff right_hand_notes @ [Chord right_hand_notes])
   \<and> process s_fist [hand_open_right, hand_fist_right] (clock_at 5)
     = Inr (s_second, map NoteOn right_hand_notes @ map NoteOff right_hand_notes)"
  using frame_two_rights frame_two_rights_again by simp

end
